theory Spec2Isabelle
  imports Complex_Main "HOL-Library.Sublist"
begin

section \<open>Python values shared by the three source files\<close>

text \<open>
  Strings are lists of characters; the model covers ASCII text, which is what the
  tests of the source on characters (\<^verbatim>\<open>\b\<close>, \<^verbatim>\<open>upper\<close>, \<^verbatim>\<open>lower\<close>, \<^verbatim>\<open>strip\<close>,
  \<^verbatim>\<open>splitlines\<close>) are defined on here. An exception is a value that carries the text
  \<^verbatim>\<open>str(e)\<close> gives.
\<close>

datatype exn =
    KeyError string
  | AttributeError string
  | TypeError string
  | ValueError string
  | IndexError string
  | CsvError string
  | FileNotFoundError string
  | OtherError string

fun str_of :: "exn \<Rightarrow> string" where
  "str_of (KeyError m) = m"
| "str_of (AttributeError m) = m"
| "str_of (TypeError m) = m"
| "str_of (ValueError m) = m"
| "str_of (IndexError m) = m"
| "str_of (CsvError m) = m"
| "str_of (FileNotFoundError m) = m"
| "str_of (OtherError m) = m"

definition code_point :: "char \<Rightarrow> int" where
  "code_point c = of_char c"

definition upper_char :: "char \<Rightarrow> char" where
  "upper_char c = (if 97 \<le> code_point c \<and> code_point c \<le> 122 then char_of (code_point c - 32) else c)"

definition lower_char :: "char \<Rightarrow> char" where
  "lower_char c = (if 65 \<le> code_point c \<and> code_point c \<le> 90 then char_of (code_point c + 32) else c)"

definition upper :: "string \<Rightarrow> string" where
  "upper s = map upper_char s"

definition lower :: "string \<Rightarrow> string" where
  "lower s = map lower_char s"

text \<open>The class \<^verbatim>\<open>\w\<close> of the regular expressions: letters, digits and the underscore.\<close>

definition is_word_char :: "char \<Rightarrow> bool" where
  "is_word_char c =
     ((48 \<le> code_point c \<and> code_point c \<le> 57) \<or> (65 \<le> code_point c \<and> code_point c \<le> 90)
      \<or> code_point c = 95 \<or> (97 \<le> code_point c \<and> code_point c \<le> 122))"

text \<open>
  \<^verbatim>\<open>str.strip()\<close> removes the white space at both ends: space, tab, line feed, vertical tab,
  form feed, carriage return and the four separators 0x1c to 0x1f.
\<close>

definition is_space :: "char \<Rightarrow> bool" where
  "is_space c = (code_point c = 32 \<or> (9 \<le> code_point c \<and> code_point c \<le> 13)
      \<or> (28 \<le> code_point c \<and> code_point c \<le> 31))"

definition strip :: "string \<Rightarrow> string" where
  "strip s = rev (dropWhile is_space (rev (dropWhile is_space s)))"

text \<open>
  \<^verbatim>\<open>round(x)\<close> on a float: the nearest integer, a tie going to the even one. Every finite
  float is a rational number and \<^verbatim>\<open>round\<close> is exact on it, so amounts are rationals; the
  floats that are not numbers (nan, inf) are outside the model.
\<close>

definition py_round :: "rat \<Rightarrow> int" where
  "py_round x =
     (let f = \<lfloor>x\<rfloor>; d = x - of_int f
      in if d < 1 / 2 then f else if 1 / 2 < d then f + 1 else if even f then f else f + 1)"

section \<open>The regular expressions of calculate\_points\<close>

text \<open>
  \<^verbatim>\<open>re.search(r'\bW\b', s)\<close> for a literal word \<open>W\<close>: some position of \<open>s\<close> is a word
  boundary, \<open>W\<close> follows it, and the position after \<open>W\<close> is a word boundary again.
  \<^verbatim>\<open>\b\<close> holds between two neighbours of which exactly one is a word character; the
  start and the end of the string count as neighbours that are not.
  The search walks over \<open>s\<close> and remembers the character before the current position.
\<close>

definition word_opt :: "char option \<Rightarrow> bool" where
  "word_opt c = (case c of None \<Rightarrow> False | Some x \<Rightarrow> is_word_char x)"

definition at_boundary :: "char option \<Rightarrow> char option \<Rightarrow> bool" where
  "at_boundary left right = (word_opt left \<noteq> word_opt right)"

definition first_char :: "string \<Rightarrow> char option" where
  "first_char s = (case s of [] \<Rightarrow> None | c # _ \<Rightarrow> Some c)"

definition last_char :: "char option \<Rightarrow> string \<Rightarrow> char option" where
  "last_char left s = (if s = [] then left else Some (last s))"

definition match_bword_here :: "string \<Rightarrow> char option \<Rightarrow> string \<Rightarrow> bool" where
  "match_bword_here w left s =
     (at_boundary left (first_char s) \<and> prefix w s
      \<and> at_boundary (last_char left w) (first_char (drop (length w) s)))"

fun re_search_bword :: "string \<Rightarrow> char option \<Rightarrow> string \<Rightarrow> bool" where
  "re_search_bword w left [] = match_bword_here w left []"
| "re_search_bword w left (c # cs) =
     (match_bword_here w left (c # cs) \<or> re_search_bword w (Some c) cs)"

text \<open>
  What the specification calls a whole word: \<open>w\<close> occurs in \<open>s\<close>, the character before
  the occurrence (if any) is not a word character, and neither is the one after it.
\<close>

definition contains_whole_word :: "string \<Rightarrow> string \<Rightarrow> bool" where
  "contains_whole_word w s =
     (\<exists>pre post. s = pre @ w @ post
        \<and> (pre = [] \<or> \<not> is_word_char (last pre))
        \<and> (post = [] \<or> \<not> is_word_char (hd post)))"

section \<open>models.py: the tables and the session\<close>

datatype date = Date (year: nat) (month: nat) (day: nat)

text \<open>
  A row of the table \<^verbatim>\<open>multipliers\<close> and one of \<^verbatim>\<open>transactions\<close>. The primary keys and
  the foreign key \<^verbatim>\<open>multiplier_id\<close> are assigned by the database and read by none of the
  functions below; they are left out. A nullable column is an option. \<^verbatim>\<open>amount\<close> is an
  option because \<^verbatim>\<open>calculate_points\<close> tests it against \<^verbatim>\<open>None\<close>.
\<close>

record multiplier_row =
  mult_category :: string
  mult_card :: string
  mult_multiplier :: int

record transaction =
  transaction_date :: date
  description :: string
  amount :: "rat option"
  category :: "string option"
  card :: string
  multiplier :: "multiplier_row option"
  points :: "int option"
  user_id :: nat

text \<open>
  The database behind \<^verbatim>\<open>DATABASE_URL\<close>: the two tables, and what its column type
  \<^verbatim>\<open>Numeric(10, 2)\<close> makes of an amount that is written to it. The column keeps two
  decimals; how an amount with more decimals is rounded is the engine's, so the rounding
  is a field of the database. A row is written through \<open>stored\<close>. The points of a row are
  an integer, which the column keeps. An amount too large for the ten digits of the
  column (eight before the point) is outside the model.
\<close>

record database =
  transactions :: "transaction list"
  multipliers :: "multiplier_row list"
  numeric_10_2 :: "rat \<Rightarrow> rat"

definition stored :: "database \<Rightarrow> transaction \<Rightarrow> transaction" where
  "stored d tx = tx\<lparr>amount := map_option (numeric_10_2 d) (amount tx)\<rparr>"

text \<open>
  An amount of the canonical schema has two decimals, and fits the column when it has at
  most eight digits before the point. A rounding to two decimals: half away from zero, as
  PostgreSQL rounds. A database keeps canonical amounts when it writes each of them as it
  is.
\<close>

definition two_decimals :: "rat \<Rightarrow> bool" where
  "two_decimals a = (a * 100 = of_int \<lfloor>a * 100\<rfloor>)"

definition canonical_amount :: "rat \<Rightarrow> bool" where
  "canonical_amount a = (two_decimals a \<and> \<bar>a\<bar> < 100000000)"

definition round_cents :: "rat \<Rightarrow> rat" where
  "round_cents a =
     (if 0 \<le> a then of_int \<lfloor>a * 100 + 1 / 2\<rfloor> / 100
      else - (of_int \<lfloor>- a * 100 + 1 / 2\<rfloor> / 100))"

definition keeps_canonical_amounts :: "database \<Rightarrow> bool" where
  "keeps_canonical_amounts d = (\<forall>a. canonical_amount a \<longrightarrow> numeric_10_2 d a = a)"

text \<open>
  A session of the ORM: the database it is bound to (as of the last commit), the rows it
  has flushed in the open database transaction, the objects added and not yet flushed,
  and its \<^verbatim>\<open>autoflush\<close> setting. A query is answered by the database: it sees the
  committed and the flushed rows, never the pending objects; with \<^verbatim>\<open>autoflush\<close> on, the
  session flushes before every query. A flush writes the pending objects to the table.
\<close>

record session =
  engine :: database
  flushed :: "transaction list"
  pending :: "transaction list"
  autoflush :: bool

definition flush :: "session \<Rightarrow> session" where
  "flush s = s\<lparr>flushed := flushed s @ map (stored (engine s)) (pending s), pending := []\<rparr>"

definition before_query :: "session \<Rightarrow> session" where
  "before_query s = (if autoflush s then flush s else s)"

definition add :: "session \<Rightarrow> transaction \<Rightarrow> session" where
  "add s tx = s\<lparr>pending := pending s @ [tx]\<rparr>"

definition commit :: "session \<Rightarrow> session" where
  "commit s =
     (let s' = flush s
      in s'\<lparr>engine := (engine s')\<lparr>transactions := transactions (engine s') @ flushed s'\<rparr>,
            flushed := []\<rparr>)"

text \<open>Closing a session rolls back what was not committed: the database is left.\<close>

definition close :: "session \<Rightarrow> database" where
  "close s = engine s"

text \<open>
  \<^verbatim>\<open>db_session.query(Multiplier).filter_by(category=..., card=...).first()\<close>
\<close>

definition query_multiplier_first ::
    "session \<Rightarrow> string \<Rightarrow> string \<Rightarrow> multiplier_row option \<times> session" where
  "query_multiplier_first s cat crd =
     (let s' = before_query s
      in (find (\<lambda>m. mult_category m = cat \<and> mult_card m = crd) (multipliers (engine s')), s'))"

section \<open>models.py: Transaction.calculate\_points\<close>

text \<open>
  The last statement of the method:
  \<^verbatim>\<open>if self.amount is not None and self.multiplier and self.multiplier.multiplier:
       self.points = round(float(self.amount)) * self.multiplier.multiplier\<close>
\<close>

definition assign_points :: "transaction \<Rightarrow> transaction" where
  "assign_points self =
     (case amount self of
        None \<Rightarrow> self
      | Some a \<Rightarrow>
          (case multiplier self of
             None \<Rightarrow> self
           | Some m \<Rightarrow>
               if mult_multiplier m \<noteq> 0
               then self\<lparr>points := Some (py_round a * mult_multiplier m)\<rparr>
               else self))"

text \<open>
  The method mutates the transaction and may query through the session; the model returns
  both. \<^verbatim>\<open>db_session\<close> is optional in the source, an empty category or card is false.
\<close>

definition calculate_points ::
    "transaction \<Rightarrow> session option \<Rightarrow> transaction \<times> session option" where
  "calculate_points self db_session =
     (let desc = upper (description self)
      in if re_search_bword ''AUTO'' None desc \<and> re_search_bword ''PAY'' None desc
         then (self\<lparr>points := None\<rparr>, db_session)
         else
           (case db_session of
              None \<Rightarrow> (assign_points self, None)
            | Some db \<Rightarrow>
                (case category self of
                   None \<Rightarrow> (assign_points self, Some db)
                 | Some cat \<Rightarrow>
                     if cat \<noteq> [] \<and> card self \<noteq> []
                     then
                       (case query_multiplier_first db cat (card self) of
                          (None, db') \<Rightarrow> (self\<lparr>multiplier := None, points := None\<rparr>, Some db')
                        | (Some m, db') \<Rightarrow> (assign_points (self\<lparr>multiplier := Some m\<rparr>), Some db'))
                     else (assign_points self, Some db))))"

section \<open>main.py: upload\_csv\<close>

text \<open>
  \<^verbatim>\<open>date.fromisoformat\<close> and \<^verbatim>\<open>float\<close> belong to Python: they are parameters, each giving
  the value or the exception it raises on a string.
\<close>

record pylib =
  fromisoformat :: "string \<Rightarrow> exn + date"
  float_str :: "string \<Rightarrow> exn + rat"

text \<open>
  A row as \<^verbatim>\<open>csv.DictReader\<close> yields it: a dictionary from the header names to the
  cells, where the cell of a row that is too short is \<^verbatim>\<open>None\<close>.
\<close>

type_synonym row = "string \<Rightarrow> string option option"

definition bind_exn :: "exn + 'a \<Rightarrow> ('a \<Rightarrow> exn + 'b) \<Rightarrow> exn + 'b" where
  "bind_exn m f = (case m of Inl e \<Rightarrow> Inl e | Inr x \<Rightarrow> f x)"

definition quoted :: "string \<Rightarrow> string" where
  "quoted s = CHR 0x27 # s @ [CHR 0x27]"

definition getitem :: "row \<Rightarrow> string \<Rightarrow> exn + string option" where
  "getitem r k = (case r k of None \<Rightarrow> Inl (KeyError (quoted k)) | Some v \<Rightarrow> Inr v)"

definition strip_cell :: "string option \<Rightarrow> exn + string" where
  "strip_cell v =
     (case v of
        None \<Rightarrow>
          Inl (AttributeError (quoted ''NoneType'' @ '' object has no attribute '' @ quoted ''strip''))
      | Some s \<Rightarrow> Inr (strip s))"

definition date_cell :: "pylib \<Rightarrow> string option \<Rightarrow> exn + date" where
  "date_cell lib v =
     (case v of
        None \<Rightarrow> Inl (TypeError ''fromisoformat: argument must be str'')
      | Some s \<Rightarrow> fromisoformat lib s)"

definition float_cell :: "pylib \<Rightarrow> string option \<Rightarrow> exn + rat" where
  "float_cell lib v =
     (case v of
        None \<Rightarrow>
          Inl (TypeError (''float() argument must be a string or a real number, not ''
                 @ quoted ''NoneType''))
      | Some s \<Rightarrow> float_str lib s)"

text \<open>
  The first statements of the loop body, in the order Python evaluates them:
  \<^verbatim>\<open>tx_date = date.fromisoformat(row["transaction_date"])\<close>, then the arguments of
  \<^verbatim>\<open>Transaction(...)\<close> from \<^verbatim>\<open>description\<close> to \<^verbatim>\<open>card\<close>. The new object has no
  multiplier and no points yet.
\<close>

definition build_transaction :: "pylib \<Rightarrow> nat \<Rightarrow> row \<Rightarrow> exn + transaction" where
  "build_transaction lib uid r =
     bind_exn (getitem r ''transaction_date'') (\<lambda>v1. bind_exn (date_cell lib v1) (\<lambda>tx_date.
     bind_exn (getitem r ''description'') (\<lambda>v2. bind_exn (strip_cell v2) (\<lambda>desc.
     bind_exn (getitem r ''amount'') (\<lambda>v3. bind_exn (float_cell lib v3) (\<lambda>amt.
     bind_exn (getitem r ''category'') (\<lambda>v4. bind_exn (strip_cell v4) (\<lambda>cat.
     bind_exn (getitem r ''card'') (\<lambda>v5. bind_exn (strip_cell v5) (\<lambda>crd.
       Inr \<lparr>transaction_date = tx_date, description = desc, amount = Some amt,
            category = Some cat, card = crd, multiplier = None, points = None,
            user_id = uid\<rparr>))))))))))"

text \<open>
  \<^verbatim>\<open>db.query(Transaction).filter_by(transaction_date=..., description=..., amount=...,
  card=...).first()\<close>: the filter names four columns.
\<close>

definition same_key :: "transaction \<Rightarrow> transaction \<Rightarrow> bool" where
  "same_key tx r =
     (transaction_date r = transaction_date tx \<and> description r = description tx
      \<and> amount r = amount tx \<and> card r = card tx)"

definition query_transaction_first :: "session \<Rightarrow> transaction \<Rightarrow> transaction option \<times> session" where
  "query_transaction_first s tx =
     (let s' = before_query s
      in (find (same_key tx) (transactions (engine s') @ flushed s'), s'))"

datatype detail = Only_CSV_files_are_accepted | Row_parsing_failed exn

datatype http_exception = HTTPException nat detail

record response =
  status :: string
  added :: nat
  skipped :: nat
  filename :: string

text \<open>
  The loop over the rows, with the session and the two counters. An exception in the body
  leaves the loop as an \<^verbatim>\<open>HTTPException\<close>; the session is returned with it, as the caller
  still holds it.
\<close>

fun upload_rows ::
    "pylib \<Rightarrow> nat \<Rightarrow> row list \<Rightarrow> session \<Rightarrow> nat \<Rightarrow> nat
      \<Rightarrow> (http_exception \<times> session) + (session \<times> nat \<times> nat)" where
  "upload_rows lib uid [] db n_added n_skipped = Inr (db, n_added, n_skipped)"
| "upload_rows lib uid (r # rs) db n_added n_skipped =
     (case build_transaction lib uid r of
        Inl e \<Rightarrow> Inl (HTTPException 400 (Row_parsing_failed e), db)
      | Inr tx0 \<Rightarrow>
          (case calculate_points tx0 (Some db) of
             (tx, db_opt) \<Rightarrow>
               (let db1 = (case db_opt of None \<Rightarrow> db | Some d \<Rightarrow> d)
                in case query_transaction_first db1 tx of
                     (Some _, db2) \<Rightarrow> upload_rows lib uid rs db2 n_added (n_skipped + 1)
                   | (None, db2) \<Rightarrow> upload_rows lib uid rs (add db2 tx) (n_added + 1) n_skipped)))"

definition upload_csv ::
    "pylib \<Rightarrow> session \<Rightarrow> nat \<Rightarrow> string \<Rightarrow> row list
      \<Rightarrow> (http_exception \<times> session) + (response \<times> session)" where
  "upload_csv lib db uid fname rows =
     (if \<not> suffix ''.csv'' fname then Inl (HTTPException 400 Only_CSV_files_are_accepted, db)
      else
        (case upload_rows lib uid rows db 0 0 of
           Inl err \<Rightarrow> Inl err
         | Inr (db', n_added, n_skipped) \<Rightarrow>
             Inr (\<lparr>status = ''success'', added = n_added, skipped = n_skipped, filename = fname\<rparr>,
                  commit db')))"

text \<open>
  \<^verbatim>\<open>SessionLocal = sessionmaker(autocommit=False, autoflush=False, bind=engine)\<close>, and a
  request to \<^verbatim>\<open>/upload\<close>: \<^verbatim>\<open>get_db\<close> makes the session, hands it to \<^verbatim>\<open>upload_csv\<close> and
  closes it whatever happened. The result is the answer and the database afterwards.
\<close>

definition SessionLocal :: "database \<Rightarrow> session" where
  "SessionLocal d = \<lparr>engine = d, flushed = [], pending = [], autoflush = False\<rparr>"

definition post_upload ::
    "pylib \<Rightarrow> database \<Rightarrow> nat \<Rightarrow> string \<Rightarrow> row list \<Rightarrow> (http_exception + response) \<times> database" where
  "post_upload lib d uid fname rows =
     (case upload_csv lib (SessionLocal d) uid fname rows of
        Inl (err, db) \<Rightarrow> (Inl err, close db)
      | Inr (resp, db) \<Rightarrow> (Inr resp, close db))"

section \<open>watcher.py: validate\_csv\<close>

definition STANDARD_HEADERS :: "string list" where
  "STANDARD_HEADERS = [''transaction_date'', ''description'', ''amount'', ''category'', ''card'']"

text \<open>
  \<^verbatim>\<open>str.splitlines()\<close>: a line ends at a line feed, a carriage return (with the line feed
  that follows it, if any), a vertical tab, a form feed or one of the separators 0x1c to
  0x1e; the line ends are dropped, and there is no empty last line.
\<close>

definition is_linebreak :: "char \<Rightarrow> bool" where
  "is_linebreak c = ((10 \<le> code_point c \<and> code_point c \<le> 13) \<or> (28 \<le> code_point c \<and> code_point c \<le> 30))"

fun splitlines_from :: "string \<Rightarrow> string \<Rightarrow> string list" where
  "splitlines_from cur [] = (if cur = [] then [] else [cur])"
| "splitlines_from cur [c] = (if is_linebreak c then [cur] else [cur @ [c]])"
| "splitlines_from cur (c # d # cs) =
     (if code_point c = 13 \<and> code_point d = 10 then cur # splitlines_from [] cs
      else if is_linebreak c then cur # splitlines_from [] (d # cs)
      else splitlines_from (cur @ [c]) (d # cs))"

definition splitlines :: "string \<Rightarrow> string list" where
  "splitlines s = splitlines_from [] s"

text \<open>
  \<^verbatim>\<open>csv.reader\<close> with the default dialect (delimiter comma, quote character \<open>"\<close>, doubled
  quotes, not strict, no escape character): the automaton of the module, one character at
  a time, with the end of each line as a character of its own. A field may hold 131072
  characters.
\<close>

datatype parser_state =
  START_RECORD | START_FIELD | IN_FIELD | IN_QUOTED_FIELD | QUOTE_IN_QUOTED_FIELD | EAT_CRNL

datatype csv_char = Ch char | EOL

record reader =
  saved_fields :: "string list"
  field :: string
  state :: parser_state

definition parse_save_field :: "reader \<Rightarrow> reader" where
  "parse_save_field r = r\<lparr>saved_fields := saved_fields r @ [field r], field := []\<rparr>"

definition parse_add_char :: "reader \<Rightarrow> char \<Rightarrow> exn + reader" where
  "parse_add_char r c =
     (if 131072 \<le> int (length (field r))
      then Inl (CsvError ''field larger than field limit (131072)'')
      else Inr (r\<lparr>field := field r @ [c]\<rparr>))"

definition is_crlf :: "char \<Rightarrow> bool" where
  "is_crlf c = (code_point c = 10 \<or> code_point c = 13)"

definition end_of_line :: "reader \<Rightarrow> csv_char \<Rightarrow> reader" where
  "end_of_line r c = (parse_save_field r)\<lparr>state := (if c = EOL then START_RECORD else EAT_CRNL)\<rparr>"

definition start_field :: "reader \<Rightarrow> csv_char \<Rightarrow> exn + reader" where
  "start_field r c =
     (case c of
        EOL \<Rightarrow> Inr (end_of_line r c)
      | Ch x \<Rightarrow>
          if is_crlf x then Inr (end_of_line r c)
          else if x = CHR 0x22 then Inr (r\<lparr>state := IN_QUOTED_FIELD\<rparr>)
          else if x = CHR '','' then Inr (parse_save_field r)
          else bind_exn (parse_add_char r x) (\<lambda>r'. Inr (r'\<lparr>state := IN_FIELD\<rparr>)))"

definition parse_process_char :: "reader \<Rightarrow> csv_char \<Rightarrow> exn + reader" where
  "parse_process_char r c =
     (case state r of
        START_RECORD \<Rightarrow>
          (case c of
             EOL \<Rightarrow> Inr r
           | Ch x \<Rightarrow>
               if is_crlf x then Inr (r\<lparr>state := EAT_CRNL\<rparr>)
               else start_field (r\<lparr>state := START_FIELD\<rparr>) c)
      | START_FIELD \<Rightarrow> start_field r c
      | IN_FIELD \<Rightarrow>
          (case c of
             EOL \<Rightarrow> Inr (end_of_line r c)
           | Ch x \<Rightarrow>
               if is_crlf x then Inr (end_of_line r c)
               else if x = CHR '','' then Inr ((parse_save_field r)\<lparr>state := START_FIELD\<rparr>)
               else parse_add_char r x)
      | IN_QUOTED_FIELD \<Rightarrow>
          (case c of
             EOL \<Rightarrow> Inr r
           | Ch x \<Rightarrow>
               if x = CHR 0x22 then Inr (r\<lparr>state := QUOTE_IN_QUOTED_FIELD\<rparr>)
               else parse_add_char r x)
      | QUOTE_IN_QUOTED_FIELD \<Rightarrow>
          (case c of
             EOL \<Rightarrow> Inr (end_of_line r c)
           | Ch x \<Rightarrow>
               if x = CHR 0x22
               then bind_exn (parse_add_char r x) (\<lambda>r'. Inr (r'\<lparr>state := IN_QUOTED_FIELD\<rparr>))
               else if x = CHR '','' then Inr ((parse_save_field r)\<lparr>state := START_FIELD\<rparr>)
               else if is_crlf x then Inr (end_of_line r c)
               else bind_exn (parse_add_char r x) (\<lambda>r'. Inr (r'\<lparr>state := IN_FIELD\<rparr>)))
      | EAT_CRNL \<Rightarrow>
          (case c of
             EOL \<Rightarrow> Inr (r\<lparr>state := START_RECORD\<rparr>)
           | Ch x \<Rightarrow>
               if is_crlf x then Inr r
               else Inl (CsvError ''new-line character seen in unquoted field'')))"

fun process_line :: "reader \<Rightarrow> string \<Rightarrow> exn + reader" where
  "process_line r [] = parse_process_char r EOL"
| "process_line r (c # cs) = bind_exn (parse_process_char r (Ch c)) (\<lambda>r'. process_line r' cs)"

text \<open>
  One call of \<^verbatim>\<open>next(reader)\<close>: lines are read until the automaton is back at the start of
  a record. When the lines run out, an open field is the last record, and no record at
  all is \<^verbatim>\<open>StopIteration\<close> (\<open>None\<close>).
\<close>

fun reader_next_from :: "reader \<Rightarrow> string list \<Rightarrow> exn + string list option" where
  "reader_next_from r [] =
     (if field r \<noteq> [] \<or> state r = IN_QUOTED_FIELD then Inr (Some (saved_fields (parse_save_field r)))
      else Inr None)"
| "reader_next_from r (l # ls) =
     bind_exn (process_line r l)
       (\<lambda>r'. if state r' = START_RECORD then Inr (Some (saved_fields r')) else reader_next_from r' ls)"

definition reader_next :: "string list \<Rightarrow> exn + string list option" where
  "reader_next ls = reader_next_from \<lparr>saved_fields = [], field = [], state = START_RECORD\<rparr> ls"

text \<open>
  \<^verbatim>\<open>csv.DictReader(lines).fieldnames\<close> is the first record of the reader, or \<^verbatim>\<open>None\<close>
  when there is none (the \<^verbatim>\<open>StopIteration\<close> is swallowed).
\<close>

definition fieldnames :: "string list \<Rightarrow> exn + string list option" where
  "fieldnames ls = reader_next ls"

text \<open>
  What the fields of a line without quotes are meant to be: the line cut at its commas
  (\<^verbatim>\<open>line.split(",")\<close>). The automaton is compared with it below.
\<close>

fun split_commas_from :: "string \<Rightarrow> string \<Rightarrow> string list" where
  "split_commas_from cur [] = [cur]"
| "split_commas_from cur (c # cs) =
     (if c = CHR '','' then cur # split_commas_from [] cs else split_commas_from (cur @ [c]) cs)"

definition split_commas :: "string \<Rightarrow> string list" where
  "split_commas l = split_commas_from [] l"

text \<open>
  \<^verbatim>\<open>reader = csv.DictReader(content.splitlines())
  return set(STANDARD_HEADERS).issubset(set(reader.fieldnames))\<close>

  \<^verbatim>\<open>set(None)\<close> raises a \<^verbatim>\<open>TypeError\<close>.
\<close>

definition validate_csv :: "string \<Rightarrow> exn + bool" where
  "validate_csv content =
     bind_exn (fieldnames (splitlines content))
       (\<lambda>names. case names of
          None \<Rightarrow> Inl (TypeError (quoted ''NoneType'' @ '' object is not iterable''))
        | Some fs \<Rightarrow> Inr (set STANDARD_HEADERS \<subseteq> set fs))"

section \<open>watcher.py: process\_file\<close>

text \<open>
  A path is a directory and a name. The three directories are fixed (\<open>~\<close> stands for
  the home directory \<^verbatim>\<open>expanduser\<close> puts in); the log file is kept apart from the other
  files, as the lines appended to it.
\<close>

record path =
  parent :: string
  name :: string

definition INCOMING_DIR :: string where
  "INCOMING_DIR = ''~/Finances/Documents/Incoming''"

definition PROCESSED_DIR :: string where
  "PROCESSED_DIR = ''~/Finances/Documents/Processed''"

definition FAILED_DIR :: string where
  "FAILED_DIR = ''~/Finances/Documents/Failed''"

text \<open>
  \<^verbatim>\<open>Path.suffix\<close>, \<^verbatim>\<open>Path.stem\<close> and \<^verbatim>\<open>Path.with_suffix\<close>: the suffix starts at the last dot
  of the name, unless that dot is the first or the last character; a path with an empty
  name has no suffix to replace.
\<close>

definition rfind_dot :: "string \<Rightarrow> nat option" where
  "rfind_dot s =
     (if CHR ''.'' \<in> set s
      then Some (length s - 1 - length (takeWhile (\<lambda>c. c \<noteq> CHR ''.'') (rev s)))
      else None)"

definition path_suffix :: "path \<Rightarrow> string" where
  "path_suffix p =
     (case rfind_dot (name p) of
        None \<Rightarrow> []
      | Some i \<Rightarrow> if 0 < i \<and> i + 1 < length (name p) then drop i (name p) else [])"

definition stem :: "path \<Rightarrow> string" where
  "stem p =
     (case rfind_dot (name p) of
        None \<Rightarrow> name p
      | Some i \<Rightarrow> if 0 < i \<and> i + 1 < length (name p) then take i (name p) else name p)"

definition with_suffix :: "path \<Rightarrow> string \<Rightarrow> exn + path" where
  "with_suffix p sfx =
     (if name p = [] then Inl (ValueError ''path has an empty name'')
      else if path_suffix p = [] then Inr (p\<lparr>name := name p @ sfx\<rparr>)
      else Inr (p\<lparr>name := take (length (name p) - length (path_suffix p)) (name p) @ sfx\<rparr>))"

text \<open>
  What the file system holds at a path: a text, or something \<^verbatim>\<open>read_text\<close> raises on (a
  file that is not text in the encoding, a directory). The state the watcher acts on: the
  file system, the lines appended to the log file, the prompts sent to the model, and the
  number of times the clock was read.
\<close>

datatype content = Text string | Unreadable exn

record world =
  files :: "path \<Rightarrow> content option"
  log :: "string list"
  requests :: "string list"
  clock :: nat

text \<open>
  What lies outside the program: the answer of \<^verbatim>\<open>ollama.chat\<close> to the n-th request (the
  text of the message, or the exception the call raises), and the two renderings of
  \<^verbatim>\<open>datetime.now()\<close> at the n-th reading of the clock.
\<close>

record env =
  chat :: "nat \<Rightarrow> string \<Rightarrow> exn + string"
  str_now :: "nat \<Rightarrow> string"
  strftime_now :: "nat \<Rightarrow> string"

definition prompt :: "string \<Rightarrow> string \<Rightarrow> string" where
  "prompt raw_csv card_name =
     ''\<newline>You are a financial transaction normalizer.\<newline>''
     @ ''Given raw CSV data from a credit card statement, return only valid transaction rows in CSV format with the headers:\<newline>''
     @ ''transaction_date, description, amount, category, card\<newline>''
     @ ''\<newline>''
     @ ''Requirements:\<newline>''
     @ ''- Dates must be ISO format: YYYY-MM-DD\<newline>''
     @ ''- Amount must be numeric, no currency symbols\<newline>''
     @ ''- Card must be set to: '' @ card_name @ ''\<newline>''
     @ ''- No introductory/explanatory text. Just CSV output.\<newline>''
     @ ''\<newline>''
     @ ''Here is the raw data:\<newline>''
     @ raw_csv @ ''\<newline>''"

definition normalize_csv_via_ollama ::
    "env \<Rightarrow> world \<Rightarrow> string \<Rightarrow> string \<Rightarrow> (exn + string) \<times> world" where
  "normalize_csv_via_ollama ev w raw_csv card_name =
     (chat ev (length (requests w)) (prompt raw_csv card_name),
      w\<lparr>requests := requests w @ [prompt raw_csv card_name]\<rparr>)"

definition log_event :: "env \<Rightarrow> world \<Rightarrow> string \<Rightarrow> string \<Rightarrow> string \<Rightarrow> world" where
  "log_event ev w fname st message =
     w\<lparr>log := log w @ [str_now ev (clock w) @ '','' @ fname @ '','' @ st @ '','' @ message @ ''\<newline>''],
       clock := Suc (clock w)\<rparr>"

definition read_text :: "world \<Rightarrow> path \<Rightarrow> exn + string" where
  "read_text w p =
     (case files w p of
        None \<Rightarrow> Inl (FileNotFoundError ''No such file or directory'')
      | Some (Text s) \<Rightarrow> Inr s
      | Some (Unreadable e) \<Rightarrow> Inl e)"

definition write_text :: "world \<Rightarrow> path \<Rightarrow> string \<Rightarrow> world" where
  "write_text w p s = w\<lparr>files := (files w)(p \<mapsto> Text s)\<rparr>"

definition touch :: "world \<Rightarrow> path \<Rightarrow> world" where
  "touch w p = (case files w p of None \<Rightarrow> w\<lparr>files := (files w)(p \<mapsto> Text [])\<rparr> | Some _ \<Rightarrow> w)"

definition shutil_move :: "world \<Rightarrow> path \<Rightarrow> path \<Rightarrow> exn + world" where
  "shutil_move w src dst =
     (case files w src of
        None \<Rightarrow> Inl (FileNotFoundError ''No such file or directory'')
      | Some f \<Rightarrow> Inr (w\<lparr>files := ((files w)(src := None))(dst \<mapsto> f)\<rparr>))"

text \<open>
  The body of the \<^verbatim>\<open>try\<close> statement: the exception it raises, if any, and the state it
  leaves.
\<close>

definition try_body :: "env \<Rightarrow> world \<Rightarrow> path \<Rightarrow> string \<Rightarrow> path \<Rightarrow> exn option \<times> world" where
  "try_body ev w file_path card_name lock_file =
     (case read_text w file_path of
        Inl e \<Rightarrow> (Some e, w)
      | Inr raw \<Rightarrow>
          (case normalize_csv_via_ollama ev w raw card_name of
             (Inl e, w1) \<Rightarrow> (Some e, w1)
           | (Inr normalized, w1) \<Rightarrow>
               (case splitlines normalized of
                  [] \<Rightarrow> (Some (IndexError ''list index out of range''), w1)
                | first_line # _ \<Rightarrow>
                    if \<not> sublist ''transaction_date'' (lower first_line)
                    then (Some (ValueError ''Ollama response missing headers''), w1)
                    else
                      (case validate_csv normalized of
                         Inl e \<Rightarrow> (Some e, w1)
                       | Inr False \<Rightarrow>
                           (Some (ValueError ''Validation failed: CSV headers missing or incorrect''), w1)
                       | Inr True \<Rightarrow>
                           (let timestamp = strftime_now ev (clock w1);
                                w2 = w1\<lparr>clock := Suc (clock w1)\<rparr>;
                                out_path = \<lparr>parent = PROCESSED_DIR,
                                            name = stem file_path @ ''_normalized_'' @ timestamp @ ''.csv''\<rparr>;
                                w3 = write_text w2 out_path normalized
                            in case shutil_move w3 file_path
                                      \<lparr>parent = PROCESSED_DIR, name = ''raw_'' @ name file_path\<rparr> of
                                 Inl e \<Rightarrow> (Some e, w3)
                               | Inr w4 \<Rightarrow>
                                   (None, log_event ev (touch w4 lock_file) (name file_path)
                                            ''processed'' []))))))"

text \<open>
  \<^verbatim>\<open>process_file\<close>: the result is the state afterwards, or the exception that leaves the
  function. The card name and the marker are computed before the \<^verbatim>\<open>try\<close>; an exception
  raised in the handler itself is not caught. The messages printed on the console are
  not part of the state.
\<close>

definition card_name_of :: "path \<Rightarrow> string" where
  "card_name_of file_path = lower (takeWhile (\<lambda>c. c \<noteq> CHR ''_'') (stem file_path))"

definition process_file :: "env \<Rightarrow> world \<Rightarrow> path \<Rightarrow> exn + world" where
  "process_file ev w file_path =
     (let card_name = card_name_of file_path
      in case with_suffix file_path ''.processed'' of
           Inl e \<Rightarrow> Inl e
         | Inr lock_file \<Rightarrow>
             if files w lock_file \<noteq> None then Inr w
             else
               (case try_body ev w file_path card_name lock_file of
                  (None, w') \<Rightarrow> Inr w'
                | (Some e, w') \<Rightarrow>
                    bind_exn (shutil_move w' file_path \<lparr>parent = FAILED_DIR, name = name file_path\<rparr>)
                      (\<lambda>w''. Inr (log_event ev w'' (name file_path) ''failed'' (str_of e)))))"

text \<open>
  One pass of the loop in \<^verbatim>\<open>main\<close> over the files the inbox lists; \<^verbatim>\<open>main\<close> repeats it
  every 30 seconds and never returns. An exception that leaves \<^verbatim>\<open>process_file\<close> ends the
  pass.
\<close>

fun poll_cycle :: "env \<Rightarrow> world \<Rightarrow> path list \<Rightarrow> exn + world" where
  "poll_cycle ev w [] = Inr w"
| "poll_cycle ev w (p # ps) = bind_exn (process_file ev w p) (\<lambda>w'. poll_cycle ev w' ps)"

text \<open>
  The steps the specification lists as failing, each with the exception it raises: the
  file cannot be read; the normalization call raises; the answer has no first line, or its
  first line (in lower case) lacks \<^verbatim>\<open>transaction_date\<close>; the validator raises or says no.
\<close>

inductive step_fails :: "env \<Rightarrow> world \<Rightarrow> path \<Rightarrow> exn \<Rightarrow> bool" where
  read_fails:
    "files w p = Some (Unreadable e) \<Longrightarrow> step_fails ev w p e"
| normalization_fails:
    "files w p = Some (Text raw) \<Longrightarrow>
     chat ev (length (requests w)) (prompt raw (card_name_of p)) = Inl e \<Longrightarrow>
     step_fails ev w p e"
| no_first_line:
    "files w p = Some (Text raw) \<Longrightarrow>
     chat ev (length (requests w)) (prompt raw (card_name_of p)) = Inr normalized \<Longrightarrow>
     splitlines normalized = [] \<Longrightarrow>
     step_fails ev w p (IndexError ''list index out of range'')"
| header_gate_fails:
    "files w p = Some (Text raw) \<Longrightarrow>
     chat ev (length (requests w)) (prompt raw (card_name_of p)) = Inr normalized \<Longrightarrow>
     splitlines normalized = first_line # rest \<Longrightarrow>
     \<not> sublist ''transaction_date'' (lower first_line) \<Longrightarrow>
     step_fails ev w p (ValueError ''Ollama response missing headers'')"
| validation_raises:
    "files w p = Some (Text raw) \<Longrightarrow>
     chat ev (length (requests w)) (prompt raw (card_name_of p)) = Inr normalized \<Longrightarrow>
     splitlines normalized = first_line # rest \<Longrightarrow>
     sublist ''transaction_date'' (lower first_line) \<Longrightarrow>
     validate_csv normalized = Inl e \<Longrightarrow>
     step_fails ev w p e"
| validation_fails:
    "files w p = Some (Text raw) \<Longrightarrow>
     chat ev (length (requests w)) (prompt raw (card_name_of p)) = Inr normalized \<Longrightarrow>
     splitlines normalized = first_line # rest \<Longrightarrow>
     sublist ''transaction_date'' (lower first_line) \<Longrightarrow>
     validate_csv normalized = Inr False \<Longrightarrow>
     step_fails ev w p (ValueError ''Validation failed: CSV headers missing or incorrect'')"

section \<open>Example data\<close>

text \<open>
  The rows of the examples in the specification, used where a statement is evaluated on a
  concrete input.
\<close>

definition dining_amex :: "int \<Rightarrow> multiplier_row" where
  "dining_amex m = \<lparr>mult_category = ''Dining'', mult_card = ''Amex'', mult_multiplier = m\<rparr>"

definition payment_amex :: "int \<Rightarrow> multiplier_row" where
  "payment_amex m = \<lparr>mult_category = ''Payment'', mult_card = ''Amex'', mult_multiplier = m\<rparr>"

definition purchase :: "string \<Rightarrow> rat \<Rightarrow> string \<Rightarrow> transaction" where
  "purchase desc amt cat =
     \<lparr>transaction_date = Date 2024 3 1, description = desc, amount = Some amt,
      category = Some cat, card = ''Amex'', multiplier = None, points = None, user_id = 1\<rparr>"

definition autopay_thank_you :: transaction where
  "autopay_thank_you =
     \<lparr>transaction_date = Date 2024 3 2, description = ''AUTOPAY THANK YOU'', amount = Some 250,
      category = Some ''Payment'', card = ''Amex'', multiplier = None, points = None, user_id = 1\<rparr>"

definition rewards :: "multiplier_row list \<Rightarrow> database" where
  "rewards ms = \<lparr>transactions = [], multipliers = ms, numeric_10_2 = round_cents\<rparr>"

text \<open>
  A Python that reads the two dates and the three amounts of the examples, and a row of a
  statement with a given amount and category.
\<close>

definition python :: pylib where
  "python =
     \<lparr>fromisoformat = (\<lambda>s.
        if s = ''2024-03-01'' then Inr (Date 2024 3 1)
        else if s = ''2024-03-02'' then Inr (Date 2024 3 2)
        else Inl (ValueError (''Invalid isoformat string: '' @ quoted s))),
      float_str = (\<lambda>s.
        if s = ''4.50'' then Inr (9 / 2)
        else if s = ''250.00'' then Inr 250
        else if s = ''4.505'' then Inr (901 / 200)
        else Inl (ValueError (''could not convert string to float: '' @ quoted s)))\<rparr>"

definition statement_row :: "string \<Rightarrow> string \<Rightarrow> row" where
  "statement_row amt cat =
     (\<lambda>k. None)
       (''transaction_date'' := Some (Some ''2024-03-01''),
        ''description'' := Some (Some ''STARBUCKS''),
        ''amount'' := Some (Some amt),
        ''category'' := Some (Some cat),
        ''card'' := Some (Some ''Amex''))"

text \<open>
  A file of the inbox, a model that gives the same answer to every request at a fixed
  time, and a state with the given files, an empty log and no request sent.
\<close>

definition inbox :: "string \<Rightarrow> path" where
  "inbox nm = \<lparr>parent = INCOMING_DIR, name = nm\<rparr>"

definition answering :: "exn + string \<Rightarrow> env" where
  "answering answer =
     \<lparr>chat = (\<lambda>n p. answer),
      str_now = (\<lambda>n. ''2024-03-05 08:00:00''),
      strftime_now = (\<lambda>n. ''20240305080000'')\<rparr>"

definition holding :: "(path \<Rightarrow> content option) \<Rightarrow> world" where
  "holding fs = \<lparr>files = fs, log = [], requests = [], clock = 0\<rparr>"

section \<open>The regular expressions search for whole words\<close>

text \<open>
  For a word that starts and ends with a word character, a match at a position means: the
  word stands there, with no word character before it and none after it. So the search
  of the code finds the word exactly when the text contains it as a whole word.
\<close>

lemma match_bword_here_iff:
  assumes "w \<noteq> []" "is_word_char (hd w)" "is_word_char (last w)"
  shows "match_bword_here w left s \<longleftrightarrow>
     (\<exists>post. s = w @ post \<and> \<not> word_opt left \<and> (post = [] \<or> \<not> is_word_char (hd post)))"
proof
  assume m: "match_bword_here w left s"
  then obtain post where s: "s = w @ post" by (auto simp: match_bword_here_def prefix_def)
  from assms(1) obtain a w' where w: "w = a # w'" by (cases w) auto
  with assms(2) have a: "is_word_char a" by simp
  from m s w a assms(3) show "\<exists>post. s = w @ post \<and> \<not> word_opt left \<and> (post = [] \<or> \<not> is_word_char (hd post))"
    by (cases post) (auto simp: match_bword_here_def at_boundary_def first_char_def last_char_def word_opt_def split: option.splits)
next
  assume "\<exists>post. s = w @ post \<and> \<not> word_opt left \<and> (post = [] \<or> \<not> is_word_char (hd post))"
  then obtain post where s: "s = w @ post" and b: "\<not> word_opt left" and p: "post = [] \<or> \<not> is_word_char (hd post)" by blast
  from assms(1) obtain a w' where w: "w = a # w'" by (cases w) auto
  with assms(2) have a: "is_word_char a" by simp
  from s b p w a assms(3) show "match_bword_here w left s"
    by (cases post) (auto simp: match_bword_here_def at_boundary_def first_char_def last_char_def word_opt_def split: option.splits)
qed

lemma re_search_bword_iff:
  assumes "w \<noteq> []" "is_word_char (hd w)" "is_word_char (last w)"
  shows "re_search_bword w left s \<longleftrightarrow>
     (\<exists>pre post. s = pre @ w @ post \<and> \<not> word_opt (last_char left pre)
        \<and> (post = [] \<or> \<not> is_word_char (hd post)))"
proof (induction s arbitrary: left)
  case Nil
  with assms(1) show ?case by (simp add: match_bword_here_iff[OF assms])
next
  case (Cons c cs)
  have "(\<exists>pre post. c # cs = pre @ w @ post \<and> \<not> word_opt (last_char left pre) \<and> (post = [] \<or> \<not> is_word_char (hd post)))
     \<longleftrightarrow> (\<exists>post. c # cs = w @ post \<and> \<not> word_opt left \<and> (post = [] \<or> \<not> is_word_char (hd post)))
        \<or> (\<exists>pre' post. cs = pre' @ w @ post \<and> \<not> word_opt (last_char (Some c) pre') \<and> (post = [] \<or> \<not> is_word_char (hd post)))"
    (is "?L \<longleftrightarrow> ?A \<or> ?B")
  proof
    assume ?L
    then obtain pre post where e: "c # cs = pre @ w @ post" and b: "\<not> word_opt (last_char left pre)"
      and p: "post = [] \<or> \<not> is_word_char (hd post)" by blast
    show "?A \<or> ?B"
    proof (cases pre)
      case Nil
      with e b p show ?thesis by (auto simp: last_char_def)
    next
      case (Cons x pre')
      with e b have "cs = pre' @ w @ post" "\<not> word_opt (last_char (Some c) pre')"
        by (auto simp: last_char_def split: if_splits)
      with p show ?thesis by blast
    qed
  next
    assume "?A \<or> ?B"
    then show ?L
    proof
      assume ?A
      then obtain post where "c # cs = [] @ w @ post" "\<not> word_opt (last_char left [])" "post = [] \<or> \<not> is_word_char (hd post)"
        by (auto simp: last_char_def)
      then show ?L by blast
    next
      assume ?B
      then obtain pre' post where "cs = pre' @ w @ post" and b: "\<not> word_opt (last_char (Some c) pre')" and p: "post = [] \<or> \<not> is_word_char (hd post)" by blast
      then have "c # cs = (c # pre') @ w @ post" "\<not> word_opt (last_char left (c # pre'))"
        by (auto simp: last_char_def split: if_splits)
      with p show ?L by blast
    qed
  qed
  then show ?case
    by (simp add: match_bword_here_iff[OF assms] Cons.IH)
qed

lemma re_search_whole_word:
  assumes "w \<noteq> []" "is_word_char (hd w)" "is_word_char (last w)"
  shows "re_search_bword w None s = contains_whole_word w s"
proof -
  have "\<And>pre. (\<not> word_opt (last_char None pre)) = (pre = [] \<or> \<not> is_word_char (last pre))"
    by (simp add: last_char_def word_opt_def)
  then show ?thesis
    by (simp add: re_search_bword_iff[OF assms] contains_whole_word_def)
qed

lemma search_AUTO: "re_search_bword ''AUTO'' None s = contains_whole_word ''AUTO'' s"
  by (rule re_search_whole_word) (simp_all add: is_word_char_def code_point_def)

lemma search_PAY: "re_search_bword ''PAY'' None s = contains_whole_word ''PAY'' s"
  by (rule re_search_whole_word) (simp_all add: is_word_char_def code_point_def)

section \<open>Points\<close>

text \<open>An amount that is an integer is its own rounding; no query changes the database.\<close>

lemma py_round_of_int: "py_round (of_int n) = n"
  by (simp add: py_round_def)

lemma engine_before_query: "engine (before_query s) = engine s"
  by (simp add: before_query_def flush_def)

text \<open>
  Claim C1, amended. A transaction with a non-empty category and card, a description that
  does not hold both whole words AUTO and PAY, and a multiplier row for (category, card)
  with the multiplier \<open>m\<close>: when \<open>m\<close> is not zero the points are \<open>round(amount) * m\<close>, the
  amount rounded first, and an amount of zero gives zero points; when \<open>m\<close> is zero the last
  test of the method is false and the points stay what they were. The points are the
  integer product itself.
\<close>

theorem calculate_points_with_multiplier:
  assumes "category t = Some cat" and "cat \<noteq> []" and "card t \<noteq> []"
    and "\<not> (contains_whole_word ''AUTO'' (upper (description t))
             \<and> contains_whole_word ''PAY'' (upper (description t)))"
    and "find (\<lambda>r. mult_category r = cat \<and> mult_card r = card t) (multipliers (engine db)) = Some m"
    and "amount t = Some a"
  shows "points (fst (calculate_points t (Some db))) =
           (if mult_multiplier m = 0 then points t else Some (py_round a * mult_multiplier m))
         \<and> (mult_multiplier m \<noteq> 0 \<and> a = 0 \<longrightarrow> points (fst (calculate_points t (Some db))) = Some 0)"
proof -
  from assms(4) have np: "\<not> (re_search_bword ''AUTO'' None (upper (description t))
      \<and> re_search_bword ''PAY'' None (upper (description t)))"
    by (simp add: search_AUTO search_PAY)
  have q: "query_multiplier_first db cat (card t) = (Some m, before_query db)"
    using assms(5) by (simp add: query_multiplier_first_def Let_def engine_before_query)
  have cp: "calculate_points t (Some db) = (assign_points (t\<lparr>multiplier := Some m\<rparr>), Some (before_query db))"
    using np assms(1-3) q by (auto simp: calculate_points_def Let_def)
  have r0: "py_round 0 = 0" using py_round_of_int[of 0] by simp
  show ?thesis
    using assms(6) r0 by (auto simp: cp assign_points_def)
qed

text \<open>
  Claim C1 as stated allows the multiplier 0 and promises 0 points for it. With the row
  (Dining, Amex, 0) the purchase of 10 keeps its points unset.
\<close>

theorem zero_multiplier_counterexample:
  "category (purchase ''STARBUCKS'' 10 ''Dining'') = Some ''Dining''
   \<and> card (purchase ''STARBUCKS'' 10 ''Dining'') = ''Amex''
   \<and> \<not> contains_whole_word ''AUTO'' (upper (description (purchase ''STARBUCKS'' 10 ''Dining'')))
   \<and> find (\<lambda>r. mult_category r = ''Dining'' \<and> mult_card r = ''Amex'')
        (multipliers (engine (SessionLocal (rewards [dining_amex 0])))) = Some (dining_amex 0)
   \<and> 0 \<le> mult_multiplier (dining_amex 0)
   \<and> amount (purchase ''STARBUCKS'' 10 ''Dining'') = Some 10
   \<and> points (fst (calculate_points (purchase ''STARBUCKS'' 10 ''Dining'')
         (Some (SessionLocal (rewards [dining_amex 0])))))
      \<noteq> Some (py_round 10 * mult_multiplier (dining_amex 0))"
proof -
  have "\<not> contains_whole_word ''AUTO'' (upper (description (purchase ''STARBUCKS'' 10 ''Dining'')))"
    unfolding search_AUTO[symmetric] by code_simp
  moreover have "points (fst (calculate_points (purchase ''STARBUCKS'' 10 ''Dining'')
         (Some (SessionLocal (rewards [dining_amex 0]))))) = None"
    by code_simp
  moreover have "find (\<lambda>r. mult_category r = ''Dining'' \<and> mult_card r = ''Amex'')
        (multipliers (engine (SessionLocal (rewards [dining_amex 0])))) = Some (dining_amex 0)"
    by code_simp
  ultimately show ?thesis
    by (simp add: purchase_def dining_amex_def)
qed

text \<open>
  Claim C1 on the example of the specification: 4.50 at the multiplier 3 is round(4.50) * 3
  = 4 * 3 = 12 points (the tie goes to the even integer), and an amount of 0 is 0 points.
\<close>

theorem calculate_points_with_multiplier_witness:
  "points (fst (calculate_points (purchase ''STARBUCKS'' (9 / 2) ''Dining'')
      (Some (SessionLocal (rewards [dining_amex 3]))))) = Some 12
   \<and> points (fst (calculate_points (purchase ''REFUND'' 0 ''Dining'')
      (Some (SessionLocal (rewards [dining_amex 3]))))) = Some 0"
proof -
  let ?db3 = "SessionLocal (rewards [dining_amex 3])"
  let ?t1 = "purchase ''STARBUCKS'' (9 / 2) ''Dining''"
  let ?t2 = "purchase ''REFUND'' 0 ''Dining''"
  have c1: "category ?t1 = Some ''Dining''" and c2: "category ?t2 = Some ''Dining''"
    and k1: "card ?t1 \<noteq> []" and k2: "card ?t2 \<noteq> []"
    and a1: "amount ?t1 = Some (9 / 2)" and a2: "amount ?t2 = Some 0"
    by (simp_all add: purchase_def)
  have ne: "''Dining'' \<noteq> []" by simp
  have n1: "\<not> (contains_whole_word ''AUTO'' (upper (description ?t1))
      \<and> contains_whole_word ''PAY'' (upper (description ?t1)))"
    unfolding search_AUTO[symmetric] search_PAY[symmetric] by code_simp
  have n2: "\<not> (contains_whole_word ''AUTO'' (upper (description ?t2))
      \<and> contains_whole_word ''PAY'' (upper (description ?t2)))"
    unfolding search_AUTO[symmetric] search_PAY[symmetric] by code_simp
  have f1: "find (\<lambda>r. mult_category r = ''Dining'' \<and> mult_card r = card ?t1)
      (multipliers (engine ?db3)) = Some (dining_amex 3)" by code_simp
  have f2: "find (\<lambda>r. mult_category r = ''Dining'' \<and> mult_card r = card ?t2)
      (multipliers (engine ?db3)) = Some (dining_amex 3)" by code_simp
  have m3: "mult_multiplier (dining_amex 3) \<noteq> 0" by (simp add: dining_amex_def)
  have r: "py_round (9 / 2) * mult_multiplier (dining_amex 3) = 12" by code_simp
  from calculate_points_with_multiplier[OF c1 ne k1 n1 f1 a1, THEN conjunct1]
  have "points (fst (calculate_points ?t1 (Some ?db3))) = Some 12" by (simp add: r m3)
  moreover from calculate_points_with_multiplier[OF c2 ne k2 n2 f2 a2, THEN conjunct2] m3
  have "points (fst (calculate_points ?t2 (Some ?db3))) = Some 0" by simp
  ultimately show ?thesis by simp
qed

text \<open>
  Claim C2. When the description in upper case holds AUTO and PAY as whole words, the
  points are not applicable, whatever the amount, the category, the card, the session and
  the multiplier rows are.
\<close>

theorem auto_pay_not_applicable:
  assumes "contains_whole_word ''AUTO'' (upper (description t))"
    and "contains_whole_word ''PAY'' (upper (description t))"
  shows "points (fst (calculate_points t db)) = None"
  using assms by (simp add: calculate_points_def search_AUTO search_PAY)

text \<open>
  Claim C2 on a payment of 250 described as "Auto Pay - thank you", with a multiplier row
  for its category and card.
\<close>

theorem auto_pay_not_applicable_witness:
  "contains_whole_word ''AUTO'' (upper (description (purchase ''Auto Pay - thank you'' 250 ''Payment'')))
   \<and> contains_whole_word ''PAY'' (upper (description (purchase ''Auto Pay - thank you'' 250 ''Payment'')))
   \<and> points (fst (calculate_points (purchase ''Auto Pay - thank you'' 250 ''Payment'')
         (Some (SessionLocal (rewards [payment_amex 2]))))) = None"
proof -
  let ?t = "purchase ''Auto Pay - thank you'' 250 ''Payment''"
  have a: "contains_whole_word ''AUTO'' (upper (description ?t))"
    unfolding search_AUTO[symmetric] by code_simp
  have p: "contains_whole_word ''PAY'' (upper (description ?t))"
    unfolding search_PAY[symmetric] by code_simp
  from a p auto_pay_not_applicable[OF a p] show ?thesis by simp
qed

text \<open>
  Claim C3 as stated: the row 2024-03-02, AUTOPAY THANK YOU, 250.00, Payment, Amex is said
  to get no points even when a row (Payment, Amex) exists. With the multiplier 2 it gets 500.
\<close>

theorem autopay_thank_you_counterexample:
  "find (\<lambda>r. mult_category r = ''Payment'' \<and> mult_card r = ''Amex'')
      (multipliers (engine (SessionLocal (rewards [payment_amex 2])))) = Some (payment_amex 2)
   \<and> points (fst (calculate_points autopay_thank_you
         (Some (SessionLocal (rewards [payment_amex 2]))))) = Some 500
   \<and> points (fst (calculate_points autopay_thank_you
         (Some (SessionLocal (rewards [payment_amex 2]))))) \<noteq> None"
proof -
  have "find (\<lambda>r. mult_category r = ''Payment'' \<and> mult_card r = ''Amex'')
      (multipliers (engine (SessionLocal (rewards [payment_amex 2])))) = Some (payment_amex 2)"
    by code_simp
  moreover have "points (fst (calculate_points autopay_thank_you
         (Some (SessionLocal (rewards [payment_amex 2]))))) = Some 500"
    by code_simp
  ultimately show ?thesis by simp
qed

text \<open>
  Claim C3, amended. In AUTOPAY THANK YOU neither AUTO nor PAY stands as a whole word, so
  the exclusion does not apply to that row: its points are not applicable when no row
  (Payment, Amex) exists or its multiplier is zero, and 250 times the multiplier otherwise.
\<close>

theorem autopay_thank_you_points:
  "\<not> contains_whole_word ''AUTO'' (upper (description autopay_thank_you))
   \<and> \<not> contains_whole_word ''PAY'' (upper (description autopay_thank_you))
   \<and> points (fst (calculate_points autopay_thank_you (Some db))) =
       (case find (\<lambda>r. mult_category r = ''Payment'' \<and> mult_card r = ''Amex'')
               (multipliers (engine db)) of
          None \<Rightarrow> None
        | Some m \<Rightarrow> if mult_multiplier m = 0 then None else Some (250 * mult_multiplier m))"
proof -
  have a: "\<not> contains_whole_word ''AUTO'' (upper (description autopay_thank_you))"
    unfolding search_AUTO[symmetric] by code_simp
  have p: "\<not> contains_whole_word ''PAY'' (upper (description autopay_thank_you))"
    unfolding search_PAY[symmetric] by code_simp
  have r: "py_round 250 = 250" using py_round_of_int[of 250] by simp
  have f: "category autopay_thank_you = Some ''Payment''" "card autopay_thank_you = ''Amex''"
    "amount autopay_thank_you = Some 250" "points autopay_thank_you = None"
    by (simp_all add: autopay_thank_you_def)
  have "points (fst (calculate_points autopay_thank_you (Some db))) =
       (case find (\<lambda>r. mult_category r = ''Payment'' \<and> mult_card r = ''Amex'')
               (multipliers (engine db)) of
          None \<Rightarrow> None
        | Some m \<Rightarrow> if mult_multiplier m = 0 then None else Some (250 * mult_multiplier m))"
    using a f r
    by (auto simp: calculate_points_def search_AUTO query_multiplier_first_def Let_def
        engine_before_query assign_points_def split: option.splits)
  with a p show ?thesis by simp
qed

text \<open>
  Claim C3, amended, at the multiplier 3 and with no row for (Payment, Amex).
\<close>

theorem autopay_thank_you_points_witness:
  "points (fst (calculate_points autopay_thank_you (Some (SessionLocal (rewards [payment_amex 3])))))
     = Some 750
   \<and> points (fst (calculate_points autopay_thank_you (Some (SessionLocal (rewards [dining_amex 3])))))
     = None"
proof -
  have f1: "find (\<lambda>r. mult_category r = ''Payment'' \<and> mult_card r = ''Amex'')
      (multipliers (engine (SessionLocal (rewards [payment_amex 3])))) = Some (payment_amex 3)"
    by code_simp
  have f2: "find (\<lambda>r. mult_category r = ''Payment'' \<and> mult_card r = ''Amex'')
      (multipliers (engine (SessionLocal (rewards [dining_amex 3])))) = None"
    by code_simp
  have "points (fst (calculate_points autopay_thank_you (Some (SessionLocal (rewards [payment_amex 3])))))
     = Some 750"
    using autopay_thank_you_points[of "SessionLocal (rewards [payment_amex 3])"]
    unfolding f1 by (simp add: payment_amex_def)
  moreover have "points (fst (calculate_points autopay_thank_you (Some (SessionLocal (rewards [dining_amex 3])))))
     = None"
    using autopay_thank_you_points[of "SessionLocal (rewards [dining_amex 3])"]
    unfolding f2 by simp
  ultimately show ?thesis by simp
qed

section \<open>Uploads\<close>

text \<open>
  \<^verbatim>\<open>calculate_points\<close> changes neither the four columns of the duplicate query nor the
  user, and reads only the multiplier table. In a session that does not flush before a
  query, one pass of the loop either skips the row (a stored row has its key) or adds it to
  the pending objects; the database itself is the same after the pass.
\<close>

lemma before_query_noflush: "\<not> autoflush s \<Longrightarrow> before_query s = s"
  by (simp add: before_query_def)

lemma assign_points_keeps:
  "transaction_date (assign_points t) = transaction_date t"
  "description (assign_points t) = description t"
  "amount (assign_points t) = amount t"
  "card (assign_points t) = card t"
  "category (assign_points t) = category t"
  "user_id (assign_points t) = user_id t"
  by (simp_all add: assign_points_def split: option.splits)

lemma calculate_points_keeps:
  "transaction_date (fst (calculate_points t db)) = transaction_date t"
  "description (fst (calculate_points t db)) = description t"
  "amount (fst (calculate_points t db)) = amount t"
  "card (fst (calculate_points t db)) = card t"
  "category (fst (calculate_points t db)) = category t"
  "user_id (fst (calculate_points t db)) = user_id t"
  by (simp_all add: calculate_points_def Let_def assign_points_keeps split: option.splits prod.splits)

lemma same_key_calculate_points: "same_key (fst (calculate_points t db)) x = same_key t x"
  by (simp add: same_key_def calculate_points_keeps)

lemma calculate_points_session:
  "snd (calculate_points t (Some db)) = Some db \<or> snd (calculate_points t (Some db)) = Some (before_query db)"
  by (auto simp: calculate_points_def Let_def query_multiplier_first_def split: option.splits prod.splits)

lemma calculate_points_noflush:
  assumes "\<not> autoflush db"
  shows "calculate_points t (Some db) = (fst (calculate_points t (Some db)), Some db)"
  using calculate_points_session[of t db] assms
  by (cases "calculate_points t (Some db)") (auto simp: before_query_noflush)

lemma calculate_points_multipliers:
  assumes "multipliers (engine db') = multipliers (engine db)"
  shows "fst (calculate_points t (Some db')) = fst (calculate_points t (Some db))"
  using assms
  by (auto simp: calculate_points_def Let_def query_multiplier_first_def engine_before_query
      split: option.splits prod.splits)

lemma upload_rows_step:
  assumes "\<not> autoflush db" and "flushed db = []" and "build_transaction lib uid r = Inr t"
  shows "upload_rows lib uid (r # rs) db a k =
     (if \<exists>x\<in>set (transactions (engine db)). same_key t x
      then upload_rows lib uid rs db a (k + 1)
      else upload_rows lib uid rs (add db (fst (calculate_points t (Some db)))) (a + 1) k)"
proof -
  obtain t' where cp: "calculate_points t (Some db) = (t', Some db)"
    using calculate_points_noflush[OF assms(1)] by blast
  then have t': "t' = fst (calculate_points t (Some db))" by simp
  have q: "query_transaction_first db t' = (find (same_key t) (transactions (engine db)), db)"
    using assms(1,2) unfolding t'
    by (simp add: query_transaction_first_def before_query_noflush same_key_calculate_points[abs_def])
  show ?thesis
  proof (cases "find (same_key t) (transactions (engine db))")
    case None
    then have "\<not> (\<exists>x\<in>set (transactions (engine db)). same_key t x)"
      by (simp add: find_None_iff)
    with None show ?thesis
      using assms(3) q by (simp add: cp t'[symmetric])
  next
    case (Some y)
    then have "\<exists>x\<in>set (transactions (engine db)). same_key t x"
      by (metis find_Some_iff nth_mem)
    with Some show ?thesis
      using assms(3) q by (simp add: cp)
  qed
qed

lemma add_session:
  "autoflush (add db t) = autoflush db" "flushed (add db t) = flushed db"
  "engine (add db t) = engine db" "pending (add db t) = pending db @ [t]"
  by (simp_all add: add_def)


text \<open>A request with a file of one row.\<close>

lemma SessionLocal_fields:
  "engine (SessionLocal d) = d" "flushed (SessionLocal d) = []" "pending (SessionLocal d) = []"
  "\<not> autoflush (SessionLocal d)"
  by (simp_all add: SessionLocal_def)

lemma commit_SessionLocal: "close (commit (SessionLocal d)) = d"
  by (simp add: commit_def flush_def close_def SessionLocal_def Let_def)

lemma commit_pending:
  assumes "flushed s = []"
  shows "close (commit s) =
     (engine s)\<lparr>transactions := transactions (engine s) @ map (stored (engine s)) (pending s)\<rparr>"
  using assms by (simp add: commit_def flush_def close_def Let_def)

lemma commit_add_SessionLocal:
  "close (commit (add (SessionLocal d) t)) = d\<lparr>transactions := transactions d @ [stored d t]\<rparr>"
  by (simp add: commit_def flush_def close_def SessionLocal_def add_def Let_def)

lemma post_upload_single:
  assumes "suffix ''.csv'' fname" and "build_transaction lib uid r = Inr t"
  shows "post_upload lib d uid fname [r] =
     (if \<exists>x\<in>set (transactions d). same_key t x
      then (Inr \<lparr>status = ''success'', added = 0, skipped = 1, filename = fname\<rparr>, d)
      else (Inr \<lparr>status = ''success'', added = 1, skipped = 0, filename = fname\<rparr>,
            d\<lparr>transactions := transactions d
                 @ [stored d (fst (calculate_points t (Some (SessionLocal d))))]\<rparr>))"
proof -
  have "upload_rows lib uid [r] (SessionLocal d) 0 0 =
     (if \<exists>x\<in>set (transactions d). same_key t x
      then Inr (SessionLocal d, 0, 1)
      else Inr (add (SessionLocal d) (fst (calculate_points t (Some (SessionLocal d)))), 1, 0))"
    using upload_rows_step[OF SessionLocal_fields(4) SessionLocal_fields(2) assms(2), where rs="[]" and a=0 and k=0]
    by (simp add: SessionLocal_fields del: upload_rows.simps(2))
  then show ?thesis
    using assms(1)
    by (simp add: post_upload_def upload_csv_def commit_SessionLocal commit_add_SessionLocal
        del: upload_rows.simps(2))
qed

lemma post_upload_single_error:
  assumes "build_transaction lib uid r = Inl e"
  shows "\<exists>err. post_upload lib d uid fname [r] = (Inl err, d)"
  using assms by (simp add: post_upload_def upload_csv_def close_def SessionLocal_def)

lemma post_upload_not_csv:
  assumes "\<not> suffix ''.csv'' fname"
  shows "post_upload lib d uid fname rows = (Inl (HTTPException 400 Only_CSV_files_are_accepted), d)"
  using assms by (simp add: post_upload_def upload_csv_def close_def SessionLocal_def)

lemma build_transaction_user: "build_transaction lib uid r = Inr t \<Longrightarrow> user_id t = uid"
  by (auto simp: build_transaction_def bind_exn_def split: sum.splits)

lemma build_transaction_any_user:
  assumes "build_transaction lib u r = Inr t"
  shows "build_transaction lib u' r = Inr (t\<lparr>user_id := u'\<rparr>)"
  using assms by (auto simp: build_transaction_def bind_exn_def split: sum.splits)

lemma same_key_user: "same_key (t\<lparr>user_id := u\<rparr>) x = same_key t x"
  by (simp add: same_key_def)

text \<open>
  The rounding of the examples writes an amount of two decimals as it is, so the
  database of the examples keeps canonical amounts.
\<close>

lemma round_cents_two_decimals:
  assumes "two_decimals a"
  shows "round_cents a = a"
proof -
  define n where "n = \<lfloor>a * 100\<rfloor>"
  have a: "a * 100 = of_int n"
    using assms by (simp add: two_decimals_def n_def)
  have up: "\<lfloor>a * 100 + 1 / 2\<rfloor> = n"
    unfolding a by linarith
  have down: "\<lfloor>- a * 100 + 1 / 2\<rfloor> = - n"
  proof -
    have "- a * 100 = of_int (- n)" using a by simp
    then show ?thesis by (simp only:) linarith
  qed
  have orig: "of_int n / 100 = a" using a by simp
  show ?thesis
  proof (cases "0 \<le> a")
    case True
    then show ?thesis by (simp only: round_cents_def up orig if_True)
  next
    case False
    then have "round_cents a = - (of_int (- n) / 100)"
      by (simp only: round_cents_def down if_False)
    with orig show ?thesis by simp
  qed
qed

lemma keeps_canonical_amounts_rewards:
  "keeps_canonical_amounts ((rewards ms)\<lparr>transactions := txs\<rparr>)"
  by (simp add: keeps_canonical_amounts_def canonical_amount_def rewards_def round_cents_two_decimals)

lemma same_key_stored:
  assumes "keeps_canonical_amounts d" and "amount t = Some a" and "canonical_amount a"
    and "same_key t p"
  shows "same_key t (stored d p)"
  using assms by (auto simp: same_key_def stored_def keeps_canonical_amounts_def)

text \<open>
  A loop that ends normally leaves every row of the file with a row of its key in the
  table or among the pending objects, and a loop over rows that all have their key in the
  table skips them all.
\<close>

lemma upload_rows_covers:
  assumes "\<not> autoflush db" and "flushed db = []"
    and "upload_rows lib uid rows db a k = Inr (db', a', k')"
  shows "engine db' = engine db \<and> flushed db' = [] \<and> set (pending db) \<subseteq> set (pending db')
     \<and> (\<forall>r\<in>set rows. \<forall>t. build_transaction lib uid r = Inr t \<longrightarrow>
           (\<exists>x\<in>set (transactions (engine db) @ pending db'). same_key t x))"
  using assms
proof (induction rows arbitrary: db a k)
  case Nil
  then show ?case by simp
next
  case (Cons r rows)
  obtain t where b: "build_transaction lib uid r = Inr t"
    using Cons.prems(3) by (cases "build_transaction lib uid r") auto
  let ?p = "fst (calculate_points t (Some db))"
  show ?case
  proof (cases "\<exists>x\<in>set (transactions (engine db)). same_key t x")
    case True
    then have "upload_rows lib uid rows db a (k + 1) = Inr (db', a', k')"
      using Cons.prems(3) upload_rows_step[OF Cons.prems(1,2) b, of rows a k]
      by (simp del: upload_rows.simps(2))
    from Cons.IH[OF Cons.prems(1,2) this] True b show ?thesis by auto
  next
    case False
    have inv: "\<not> autoflush (add db ?p)" "flushed (add db ?p) = []"
      using Cons.prems(1,2) by (simp_all add: add_session)
    from False have "upload_rows lib uid rows (add db ?p) (a + 1) k = Inr (db', a', k')"
      using Cons.prems(3) upload_rows_step[OF Cons.prems(1,2) b, of rows a k]
      by (simp del: upload_rows.simps(2))
    from Cons.IH[OF inv this]
    have ih: "engine db' = engine db" "flushed db' = []" "set (pending db) \<subseteq> set (pending db')"
      "?p \<in> set (pending db')"
      "\<forall>r\<in>set rows. \<forall>t. build_transaction lib uid r = Inr t \<longrightarrow>
           (\<exists>x\<in>set (transactions (engine db) @ pending db'). same_key t x)"
      by (simp_all add: add_session)
    have "same_key t ?p" by (simp add: same_key_def calculate_points_keeps)
    with ih(4) have "\<exists>x\<in>set (transactions (engine db) @ pending db'). same_key t x" by auto
    with ih b show ?thesis by auto
  qed
qed

lemma upload_rows_all_skipped:
  assumes "\<not> autoflush db" and "flushed db = []"
    and "\<forall>r\<in>set rows. \<exists>t. build_transaction lib uid r = Inr t
           \<and> (\<exists>x\<in>set (transactions (engine db)). same_key t x)"
  shows "upload_rows lib uid rows db a k = Inr (db, a, k + length rows)"
  using assms(3)
proof (induction rows arbitrary: k)
  case Nil
  then show ?case by simp
next
  case (Cons r rows)
  from Cons.prems obtain t where b: "build_transaction lib uid r = Inr t"
    and m: "\<exists>x\<in>set (transactions (engine db)). same_key t x" by auto
  from Cons.prems have "\<forall>r\<in>set rows. \<exists>t. build_transaction lib uid r = Inr t
           \<and> (\<exists>x\<in>set (transactions (engine db)). same_key t x)" by simp
  from Cons.IH[OF this, of "k + 1"] m show ?case
    using upload_rows_step[OF assms(1,2) b, of rows a k]
    by (simp del: upload_rows.simps(2))
qed

text \<open>
  Claim C4. A first request uploads a file of canonical rows (each row parses, its amount
  has two decimals and fits the column) to a database that keeps such amounts, and is
  answered.
  A second request uploads the same file again, for any user and whatever the multiplier
  table has become: every row is counted as skipped, none is added, the store is
  unchanged. When the file is one row and the first request added it, the store holds
  exactly one row with the date, description, amount and card of the row. The duplicate
  test of the second request is on these four fields and no other: a row is skipped when
  some stored row has its date, description, amount and card, and is added, as the
  database writes it, when no stored row has.
\<close>

theorem upload_twice:
  assumes "keeps_canonical_amounts d0"
    and "\<forall>r\<in>set rows. \<exists>t a. build_transaction lib u1 r = Inr t \<and> amount t = Some a
           \<and> canonical_amount a"
    and "post_upload lib d0 u1 f1 rows = (Inr resp1, d1)"
    and "suffix ''.csv'' f2"
    and "d2 = d1\<lparr>multipliers := ms\<rparr>"
  shows "post_upload lib d2 u2 f2 rows =
           (Inr \<lparr>status = ''success'', added = 0, skipped = length rows, filename = f2\<rparr>, d2)
     \<and> (\<forall>r t. rows = [r] \<and> added resp1 = 1 \<and> build_transaction lib u1 r = Inr t \<longrightarrow>
           length (filter (\<lambda>x. transaction_date x = transaction_date t \<and> description x = description t
                              \<and> amount x = amount t \<and> card x = card t)
                     (transactions d2)) = 1)
     \<and> (\<forall>r' t'. build_transaction lib u2 r' = Inr t' \<longrightarrow>
           post_upload lib d2 u2 f2 [r'] =
             (if \<exists>x\<in>set (transactions d2).
                   transaction_date x = transaction_date t' \<and> description x = description t'
                   \<and> amount x = amount t' \<and> card x = card t'
              then (Inr \<lparr>status = ''success'', added = 0, skipped = 1, filename = f2\<rparr>, d2)
              else (Inr \<lparr>status = ''success'', added = 1, skipped = 0, filename = f2\<rparr>,
                    d2\<lparr>transactions := transactions d2
                         @ [stored d2 (fst (calculate_points t' (Some (SessionLocal d2))))]\<rparr>)))"
proof -
  have csv: "suffix ''.csv'' f1"
    using assms(3) post_upload_not_csv[of f1 lib d0 u1 rows] by auto
  obtain db' a' k' where run: "upload_rows lib u1 rows (SessionLocal d0) 0 0 = Inr (db', a', k')"
    and d1: "d1 = close (commit db')"
    using assms(3) csv
    by (auto simp: post_upload_def upload_csv_def split: sum.splits prod.splits)
  from upload_rows_covers[OF SessionLocal_fields(4)[of d0] SessionLocal_fields(2)[of d0] run]
  have e: "engine db' = d0" and f: "flushed db' = []"
    and cover: "\<forall>r\<in>set rows. \<forall>t. build_transaction lib u1 r = Inr t \<longrightarrow>
           (\<exists>x\<in>set (transactions d0 @ pending db'). same_key t x)"
    by (simp_all add: SessionLocal_fields)
  have d1': "d1 = d0\<lparr>transactions := transactions d0 @ map (stored d0) (pending db')\<rparr>"
    using commit_pending[OF f] by (simp add: d1 e)
  have tx2: "transactions d2 = transactions d0 @ map (stored d0) (pending db')"
    by (simp add: assms(5) d1')
  have matched: "\<exists>t. build_transaction lib u2 r = Inr t
           \<and> (\<exists>x\<in>set (transactions (engine (SessionLocal d2))). same_key t x)"
    if "r \<in> set rows" for r
  proof -
    from assms(2) that obtain t a where b: "build_transaction lib u1 r = Inr t"
      and am: "amount t = Some a" "canonical_amount a" by blast
    from cover that b obtain x where x: "x \<in> set (transactions d0 @ pending db')" "same_key t x"
      by blast
    have "\<exists>y\<in>set (transactions d2). same_key t y"
    proof (cases "x \<in> set (transactions d0)")
      case True
      with x(2) show ?thesis by (auto simp: tx2)
    next
      case False
      with x(1) have "stored d0 x \<in> set (transactions d2)" by (auto simp: tx2)
      with same_key_stored[OF assms(1) am x(2)] show ?thesis by blast
    qed
    then show ?thesis
      using build_transaction_any_user[OF b, of u2]
      by (auto simp: same_key_user SessionLocal_fields)
  qed
  have "upload_rows lib u2 rows (SessionLocal d2) 0 0 = Inr (SessionLocal d2, 0, 0 + length rows)"
    by (rule upload_rows_all_skipped[OF SessionLocal_fields(4) SessionLocal_fields(2)])
      (use matched in blast)
  then have again: "post_upload lib d2 u2 f2 rows =
           (Inr \<lparr>status = ''success'', added = 0, skipped = length rows, filename = f2\<rparr>, d2)"
    using assms(4) by (simp add: post_upload_def upload_csv_def commit_SessionLocal)
  have one: "length (filter (\<lambda>x. transaction_date x = transaction_date t \<and> description x = description t
                              \<and> amount x = amount t \<and> card x = card t)
                     (transactions d2)) = 1"
    if "rows = [r]" and "added resp1 = 1" and b: "build_transaction lib u1 r = Inr t" for r t
  proof -
    let ?p = "fst (calculate_points t (Some (SessionLocal d0)))"
    from assms(2) that(1) b obtain a where am: "amount t = Some a" "canonical_amount a" by auto
    have fresh: "\<not> (\<exists>x\<in>set (transactions d0). same_key t x)"
      using assms(3) that(1,2) post_upload_single[OF csv b, of d0] by (auto split: if_splits)
    then have "d1 = d0\<lparr>transactions := transactions d0 @ [stored d0 ?p]\<rparr>"
      using assms(3) that(1) post_upload_single[OF csv b, of d0] by simp
    then have t2: "transactions d2 = transactions d0 @ [stored d0 ?p]"
      by (simp add: assms(5))
    have "filter (same_key t) (transactions d0) = []"
      using fresh by (simp add: filter_empty_conv)
    moreover have "same_key t (stored d0 ?p)"
      by (rule same_key_stored[OF assms(1) am]) (simp add: same_key_def calculate_points_keeps)
    ultimately have "length (filter (same_key t) (transactions d2)) = 1"
      by (simp add: t2)
    moreover have "same_key t = (\<lambda>x. transaction_date x = transaction_date t \<and> description x = description t
                              \<and> amount x = amount t \<and> card x = card t)"
      by (rule ext) (simp add: same_key_def)
    ultimately show ?thesis by simp
  qed
  have pin: "post_upload lib d2 u2 f2 [r'] =
             (if \<exists>x\<in>set (transactions d2).
                   transaction_date x = transaction_date t' \<and> description x = description t'
                   \<and> amount x = amount t' \<and> card x = card t'
              then (Inr \<lparr>status = ''success'', added = 0, skipped = 1, filename = f2\<rparr>, d2)
              else (Inr \<lparr>status = ''success'', added = 1, skipped = 0, filename = f2\<rparr>,
                    d2\<lparr>transactions := transactions d2
                         @ [stored d2 (fst (calculate_points t' (Some (SessionLocal d2))))]\<rparr>))"
    if "build_transaction lib u2 r' = Inr t'" for r' t'
    using post_upload_single[OF assms(4) that, of d2] by (simp add: same_key_def)
  from again one pin show ?thesis by blast
qed

text \<open>
  Claim C4 on the Starbucks row. User 1 uploads it as Dining and it is added. After the
  multiplier table was emptied, user 2 uploads the same row and it is skipped; the store
  holds one row with its key; the row uploaded as Restaurants is skipped too, and the row
  with the amount 250.00 is added.
\<close>

theorem upload_twice_witness:
  "keeps_canonical_amounts (rewards [dining_amex 3])
   \<and> post_upload python (rewards [dining_amex 3]) 1 ''march.csv'' [statement_row ''4.50'' ''Dining'']
     = (Inr \<lparr>status = ''success'', added = 1, skipped = 0, filename = ''march.csv''\<rparr>,
        (rewards [dining_amex 3])\<lparr>transactions := [(purchase ''STARBUCKS'' (9 / 2) ''Dining'')
            \<lparr>multiplier := Some (dining_amex 3), points := Some 12\<rparr>]\<rparr>)
   \<and> post_upload python
        ((rewards [])\<lparr>transactions := [(purchase ''STARBUCKS'' (9 / 2) ''Dining'')
            \<lparr>multiplier := Some (dining_amex 3), points := Some 12\<rparr>]\<rparr>)
        2 ''again.csv'' [statement_row ''4.50'' ''Dining'']
     = (Inr \<lparr>status = ''success'', added = 0, skipped = 1, filename = ''again.csv''\<rparr>,
        (rewards [])\<lparr>transactions := [(purchase ''STARBUCKS'' (9 / 2) ''Dining'')
            \<lparr>multiplier := Some (dining_amex 3), points := Some 12\<rparr>]\<rparr>)
   \<and> length (filter (\<lambda>x. transaction_date x = Date 2024 3 1 \<and> description x = ''STARBUCKS''
                         \<and> amount x = Some (9 / 2) \<and> card x = ''Amex'')
              [(purchase ''STARBUCKS'' (9 / 2) ''Dining'')
                 \<lparr>multiplier := Some (dining_amex 3), points := Some 12\<rparr>]) = 1
   \<and> post_upload python
        ((rewards [])\<lparr>transactions := [(purchase ''STARBUCKS'' (9 / 2) ''Dining'')
            \<lparr>multiplier := Some (dining_amex 3), points := Some 12\<rparr>]\<rparr>)
        2 ''again.csv'' [statement_row ''4.50'' ''Restaurants'']
     = (Inr \<lparr>status = ''success'', added = 0, skipped = 1, filename = ''again.csv''\<rparr>,
        (rewards [])\<lparr>transactions := [(purchase ''STARBUCKS'' (9 / 2) ''Dining'')
            \<lparr>multiplier := Some (dining_amex 3), points := Some 12\<rparr>]\<rparr>)
   \<and> post_upload python
        ((rewards [])\<lparr>transactions := [(purchase ''STARBUCKS'' (9 / 2) ''Dining'')
            \<lparr>multiplier := Some (dining_amex 3), points := Some 12\<rparr>]\<rparr>)
        2 ''again.csv'' [statement_row ''250.00'' ''Dining'']
     = (Inr \<lparr>status = ''success'', added = 1, skipped = 0, filename = ''again.csv''\<rparr>,
        (rewards [])\<lparr>transactions := [(purchase ''STARBUCKS'' (9 / 2) ''Dining'')
            \<lparr>multiplier := Some (dining_amex 3), points := Some 12\<rparr>,
          (purchase ''STARBUCKS'' 250 ''Dining'')\<lparr>user_id := 2\<rparr>]\<rparr>)"
proof -
  let ?t = "purchase ''STARBUCKS'' (9 / 2) ''Dining''"
  let ?p = "?t\<lparr>multiplier := Some (dining_amex 3), points := Some 12\<rparr>"
  let ?d0 = "rewards [dining_amex 3]"
  let ?d1 = "?d0\<lparr>transactions := [?p]\<rparr>"
  let ?d2 = "(rewards [])\<lparr>transactions := [?p]\<rparr>"
  let ?resp1 = "\<lparr>status = ''success'', added = 1, skipped = 0, filename = ''march.csv''\<rparr>"
  let ?rows = "[statement_row ''4.50'' ''Dining'']"
  have keeps: "keeps_canonical_amounts ?d0"
    using keeps_canonical_amounts_rewards[where ms="[dining_amex 3]" and txs="[]"]
    by (simp add: rewards_def)
  have two: "canonical_amount (9 / 2)" by code_simp
  have b1: "build_transaction python 1 (statement_row ''4.50'' ''Dining'') = Inr ?t" by code_simp
  have am: "amount ?t = Some (9 / 2)" by (simp add: purchase_def)
  from b1 am two
  have "\<exists>t a. build_transaction python 1 (statement_row ''4.50'' ''Dining'') = Inr t
      \<and> amount t = Some a \<and> canonical_amount a"
    by blast
  then have canon: "\<forall>r\<in>set ?rows. \<exists>t a. build_transaction python 1 r = Inr t \<and> amount t = Some a
      \<and> canonical_amount a"
    by simp
  have csv: "suffix ''.csv'' ''march.csv''" "suffix ''.csv'' ''again.csv''" by code_simp+
  have c1: "fst (calculate_points ?t (Some (SessionLocal ?d0))) = ?p" by code_simp
  have s1: "stored ?d0 ?p = ?p" by code_simp
  have first: "post_upload python ?d0 1 ''march.csv'' ?rows = (Inr ?resp1, ?d1)"
    using post_upload_single[OF csv(1) b1, of ?d0] c1 s1 by (simp add: rewards_def)
  have d2: "?d2 = ?d1\<lparr>multipliers := []\<rparr>" by (simp add: rewards_def)
  note twice = upload_twice[OF keeps canon first csv(2) d2, of 2]
  have again: "post_upload python ?d2 2 ''again.csv'' ?rows
      = (Inr \<lparr>status = ''success'', added = 0, skipped = 1, filename = ''again.csv''\<rparr>, ?d2)"
    using twice[THEN conjunct1] by simp
  have "length (filter (\<lambda>x. transaction_date x = transaction_date ?t \<and> description x = description ?t
                              \<and> amount x = amount ?t \<and> card x = card ?t)
                     (transactions ?d2)) = 1"
    using twice[THEN conjunct2, THEN conjunct1] b1 by simp
  then have one: "length (filter (\<lambda>x. transaction_date x = Date 2024 3 1 \<and> description x = ''STARBUCKS''
                         \<and> amount x = Some (9 / 2) \<and> card x = ''Amex'') [?p]) = 1"
    by (simp add: purchase_def)
  let ?t3 = "(purchase ''STARBUCKS'' (9 / 2) ''Restaurants'')\<lparr>user_id := 2\<rparr>"
  have b3: "build_transaction python 2 (statement_row ''4.50'' ''Restaurants'') = Inr ?t3"
    by code_simp
  have m3: "\<exists>x\<in>set (transactions ?d2).
       transaction_date x = transaction_date ?t3 \<and> description x = description ?t3
       \<and> amount x = amount ?t3 \<and> card x = card ?t3"
    by (simp add: purchase_def)
  have other: "post_upload python ?d2 2 ''again.csv'' [statement_row ''4.50'' ''Restaurants'']
      = (Inr \<lparr>status = ''success'', added = 0, skipped = 1, filename = ''again.csv''\<rparr>, ?d2)"
    using twice[THEN conjunct2, THEN conjunct2, rule_format, OF b3] m3 by simp
  let ?t4 = "(purchase ''STARBUCKS'' 250 ''Dining'')\<lparr>user_id := 2\<rparr>"
  have b4: "build_transaction python 2 (statement_row ''250.00'' ''Dining'') = Inr ?t4"
    by code_simp
  have m4: "\<not> (\<exists>x\<in>set (transactions ?d2).
       transaction_date x = transaction_date ?t4 \<and> description x = description ?t4
       \<and> amount x = amount ?t4 \<and> card x = card ?t4)"
    by (simp add: purchase_def)
  have c4: "fst (calculate_points ?t4 (Some (SessionLocal ?d2))) = ?t4" by code_simp
  have s4: "stored ?d2 ?t4 = ?t4" by code_simp
  have new: "post_upload python ?d2 2 ''again.csv'' [statement_row ''250.00'' ''Dining'']
      = (Inr \<lparr>status = ''success'', added = 1, skipped = 0, filename = ''again.csv''\<rparr>,
         (rewards [])\<lparr>transactions := [?p, ?t4]\<rparr>)"
    using twice[THEN conjunct2, THEN conjunct2, rule_format, OF b4] m4 c4 s4 by simp
  from keeps first again one other new show ?thesis by simp
qed

text \<open>
  An amount of three decimals is outside the canonical schema. The row with the amount
  4.505 is written to the table of the examples as 4.51, and the query compares the stored
  amount with 4.505: uploaded again, the row is added again.
\<close>

lemma three_decimals_added_twice:
  "fst (post_upload python (rewards []) 1 ''march.csv'' [statement_row ''4.505'' ''Dining''])
     = Inr \<lparr>status = ''success'', added = 1, skipped = 0, filename = ''march.csv''\<rparr>
   \<and> transactions (snd (post_upload python (rewards []) 1 ''march.csv'' [statement_row ''4.505'' ''Dining'']))
     = [purchase ''STARBUCKS'' (451 / 100) ''Dining'']
   \<and> fst (post_upload python ((rewards [])\<lparr>transactions := [purchase ''STARBUCKS'' (451 / 100) ''Dining'']\<rparr>)
           1 ''march.csv'' [statement_row ''4.505'' ''Dining''])
     = Inr \<lparr>status = ''success'', added = 1, skipped = 0, filename = ''march.csv''\<rparr>
   \<and> transactions
       (snd (post_upload python ((rewards [])\<lparr>transactions := [purchase ''STARBUCKS'' (451 / 100) ''Dining'']\<rparr>)
           1 ''march.csv'' [statement_row ''4.505'' ''Dining'']))
     = [purchase ''STARBUCKS'' (451 / 100) ''Dining'', purchase ''STARBUCKS'' (451 / 100) ''Dining'']"
  by code_simp

lemma same_key_fields: "same_key t1 t2 \<Longrightarrow> same_key t2 x = same_key t1 x"
  by (auto simp: same_key_def)

lemma upload_rows_pair:
  assumes "\<not> autoflush db" and "flushed db = []"
    and "build_transaction lib uid r1 = Inr t1" and "build_transaction lib uid r2 = Inr t2"
    and "same_key t1 t2"
  shows "upload_rows lib uid (r1 # r2 # rest) db a k =
     (if \<exists>x\<in>set (transactions (engine db)). same_key t1 x
      then upload_rows lib uid rest db a (k + 2)
      else upload_rows lib uid rest
             (add (add db (fst (calculate_points t1 (Some db)))) (fst (calculate_points t2 (Some db))))
             (a + 2) k)"
proof (cases "\<exists>x\<in>set (transactions (engine db)). same_key t1 x")
  case True
  then have "\<exists>x\<in>set (transactions (engine db)). same_key t2 x"
    by (simp add: same_key_fields[OF assms(5)])
  with True show ?thesis
    by (simp add: upload_rows_step[OF assms(1,2,3)] upload_rows_step[OF assms(1,2,4)]
        del: upload_rows.simps(2))
next
  case False
  let ?db = "add db (fst (calculate_points t1 (Some db)))"
  have inv: "\<not> autoflush ?db" "flushed ?db = []"
    using assms(1,2) by (simp_all add: add_session)
  have "\<not> (\<exists>x\<in>set (transactions (engine ?db)). same_key t2 x)"
    using False by (simp add: same_key_fields[OF assms(5)] add_session)
  moreover have "fst (calculate_points t2 (Some ?db)) = fst (calculate_points t2 (Some db))"
    by (rule calculate_points_multipliers) (simp add: add_session)
  ultimately show ?thesis
    using False
    by (simp add: upload_rows_step[OF assms(1,2,3)] upload_rows_step[OF inv assms(4)]
        del: upload_rows.simps(2))
qed

text \<open>
  Claim C5, amended. A file of two rows with the same date, description, amount and card:
  the rows are not compared with each other, because the session does not flush before
  the duplicate query and the first row is still pending when the second is looked up.
  Both rows are added, as the database writes them, when the store has no row with that
  key, and both are skipped when it has one.
\<close>

theorem duplicate_pair_in_one_file:
  assumes "build_transaction lib uid r1 = Inr t1" and "build_transaction lib uid r2 = Inr t2"
    and "same_key t1 t2" and "suffix ''.csv'' fname"
  shows "post_upload lib d uid fname [r1, r2] =
     (if \<exists>x\<in>set (transactions d). same_key t1 x
      then (Inr \<lparr>status = ''success'', added = 0, skipped = 2, filename = fname\<rparr>, d)
      else (Inr \<lparr>status = ''success'', added = 2, skipped = 0, filename = fname\<rparr>,
            d\<lparr>transactions := transactions d
                 @ [stored d (fst (calculate_points t1 (Some (SessionLocal d)))),
                    stored d (fst (calculate_points t2 (Some (SessionLocal d))))]\<rparr>))"
proof -
  have "close (commit (add (add (SessionLocal d) x) y))
      = d\<lparr>transactions := transactions d @ [stored d x, stored d y]\<rparr>"
    for x y
    by (simp add: commit_def flush_def close_def SessionLocal_def add_def Let_def)
  then show ?thesis
    using assms(4)
    by (simp add: post_upload_def upload_csv_def commit_SessionLocal SessionLocal_fields
        upload_rows_pair[OF SessionLocal_fields(4) SessionLocal_fields(2) assms(1,2,3)]
        del: upload_rows.simps(2))
qed

text \<open>
  Claim C5 as stated: the second of two rows that differ only in category (Dining,
  Restaurants) is said to be skipped. On an empty store both rows are added.
\<close>

theorem duplicate_pair_counterexample:
  "fst (post_upload python (rewards [dining_amex 3]) 1 ''march.csv''
      [statement_row ''4.50'' ''Dining'', statement_row ''4.50'' ''Restaurants''])
     = Inr \<lparr>status = ''success'', added = 2, skipped = 0, filename = ''march.csv''\<rparr>
   \<and> transactions (snd (post_upload python (rewards [dining_amex 3]) 1 ''march.csv''
      [statement_row ''4.50'' ''Dining'', statement_row ''4.50'' ''Restaurants'']))
     = [(purchase ''STARBUCKS'' (9 / 2) ''Dining'')
              \<lparr>multiplier := Some (dining_amex 3), points := Some 12\<rparr>,
        purchase ''STARBUCKS'' (9 / 2) ''Restaurants'']"
  by code_simp

text \<open>
  Claim C5, amended, on the two Starbucks rows: on an empty store, and on a store that
  holds a row with their key.
\<close>

theorem duplicate_pair_in_one_file_witness:
  "post_upload python (rewards [dining_amex 3]) 7 ''april.csv''
      [statement_row ''4.50'' ''Dining'', statement_row ''4.50'' ''Restaurants'']
     = (Inr \<lparr>status = ''success'', added = 2, skipped = 0, filename = ''april.csv''\<rparr>,
        (rewards [dining_amex 3])\<lparr>transactions :=
           [(purchase ''STARBUCKS'' (9 / 2) ''Dining'')
              \<lparr>multiplier := Some (dining_amex 3), points := Some 12, user_id := 7\<rparr>,
            (purchase ''STARBUCKS'' (9 / 2) ''Restaurants'')\<lparr>user_id := 7\<rparr>]\<rparr>)
   \<and> post_upload python
        ((rewards [dining_amex 3])\<lparr>transactions := [purchase ''STARBUCKS'' (9 / 2) ''Coffee'']\<rparr>)
        7 ''april.csv'' [statement_row ''4.50'' ''Dining'', statement_row ''4.50'' ''Restaurants'']
     = (Inr \<lparr>status = ''success'', added = 0, skipped = 2, filename = ''april.csv''\<rparr>,
        (rewards [dining_amex 3])\<lparr>transactions := [purchase ''STARBUCKS'' (9 / 2) ''Coffee'']\<rparr>)"
proof -
  let ?t1 = "(purchase ''STARBUCKS'' (9 / 2) ''Dining'')\<lparr>user_id := 7\<rparr>"
  let ?t2 = "(purchase ''STARBUCKS'' (9 / 2) ''Restaurants'')\<lparr>user_id := 7\<rparr>"
  let ?p1 = "(purchase ''STARBUCKS'' (9 / 2) ''Dining'')
              \<lparr>multiplier := Some (dining_amex 3), points := Some 12, user_id := 7\<rparr>"
  let ?d = "(rewards [dining_amex 3])\<lparr>transactions := [purchase ''STARBUCKS'' (9 / 2) ''Coffee'']\<rparr>"
  have b1: "build_transaction python 7 (statement_row ''4.50'' ''Dining'') = Inr ?t1" by code_simp
  have b2: "build_transaction python 7 (statement_row ''4.50'' ''Restaurants'') = Inr ?t2" by code_simp
  have k: "same_key ?t1 ?t2" by (simp add: same_key_def purchase_def)
  have csv: "suffix ''.csv'' ''april.csv''" by code_simp
  have no: "\<not> (\<exists>x\<in>set (transactions (rewards [dining_amex 3])). same_key ?t1 x)"
    by (simp add: rewards_def)
  have yes: "\<exists>x\<in>set (transactions ?d). same_key ?t1 x"
    by (simp add: same_key_def purchase_def)
  have c1: "fst (calculate_points ?t1 (Some (SessionLocal (rewards [dining_amex 3])))) = ?p1"
    by code_simp
  have c2: "fst (calculate_points ?t2 (Some (SessionLocal (rewards [dining_amex 3])))) = ?t2"
    by code_simp
  have s1: "stored (rewards [dining_amex 3]) ?p1 = ?p1" by code_simp
  have s2: "stored (rewards [dining_amex 3]) ?t2 = ?t2" by code_simp
  from duplicate_pair_in_one_file[OF b1 b2 k csv, of "rewards [dining_amex 3]"] no c1 c2 s1 s2
  have "post_upload python (rewards [dining_amex 3]) 7 ''april.csv''
      [statement_row ''4.50'' ''Dining'', statement_row ''4.50'' ''Restaurants'']
     = (Inr \<lparr>status = ''success'', added = 2, skipped = 0, filename = ''april.csv''\<rparr>,
        (rewards [dining_amex 3])\<lparr>transactions := [?p1, ?t2]\<rparr>)"
    by (simp add: rewards_def)
  moreover from duplicate_pair_in_one_file[OF b1 b2 k csv, of ?d] yes
  have "post_upload python ?d 7 ''april.csv''
      [statement_row ''4.50'' ''Dining'', statement_row ''4.50'' ''Restaurants'']
     = (Inr \<lparr>status = ''success'', added = 0, skipped = 2, filename = ''april.csv''\<rparr>, ?d)"
    by simp
  ultimately show ?thesis by simp
qed


text \<open>
  Rows that parse take the loop to the rows after them, in a session on the same database.
\<close>

lemma upload_rows_prefix:
  assumes "\<forall>r\<in>set pre. \<exists>t. build_transaction lib uid r = Inr t"
    and "\<not> autoflush db" and "flushed db = []"
  shows "\<exists>db' a' k'. upload_rows lib uid (pre @ rest) db a k = upload_rows lib uid rest db' a' k'
           \<and> \<not> autoflush db' \<and> flushed db' = [] \<and> engine db' = engine db"
  using assms
proof (induction pre arbitrary: db a k)
  case Nil
  then show ?case by auto
next
  case (Cons r pre)
  from Cons.prems(1) obtain t where b: "build_transaction lib uid r = Inr t" by auto
  from Cons.prems(1) have rest_ok: "\<forall>r\<in>set pre. \<exists>t. build_transaction lib uid r = Inr t" by simp
  show ?case
  proof (cases "\<exists>x\<in>set (transactions (engine db)). same_key t x")
    case True
    then have "upload_rows lib uid ((r # pre) @ rest) db a k = upload_rows lib uid (pre @ rest) db a (k + 1)"
      using upload_rows_step[OF Cons.prems(2,3) b, of "pre @ rest" a k]
      by (simp del: upload_rows.simps(2))
    with Cons.IH[OF rest_ok Cons.prems(2,3), of a "k + 1"] show ?thesis by auto
  next
    case False
    let ?db = "add db (fst (calculate_points t (Some db)))"
    have inv: "\<not> autoflush ?db" "flushed ?db = []" and e: "engine ?db = engine db"
      using Cons.prems(2,3) by (simp_all add: add_session)
    from False have "upload_rows lib uid ((r # pre) @ rest) db a k = upload_rows lib uid (pre @ rest) ?db (a + 1) k"
      using upload_rows_step[OF Cons.prems(2,3) b, of "pre @ rest" a k]
      by (simp del: upload_rows.simps(2))
    with Cons.IH[OF rest_ok inv, of "a + 1" k] e show ?thesis by auto
  qed
qed

text \<open>
  Claim C8. When some row of the file does not parse, the request ends with the error 400
  "Row parsing failed" of such a row and the store is what it was before the request:
  none of the rows is persisted.
\<close>

theorem bad_row_aborts_upload:
  assumes "suffix ''.csv'' fname"
    and "\<exists>r\<in>set rows. \<exists>e. build_transaction lib uid r = Inl e"
  shows "\<exists>r e. r \<in> set rows \<and> build_transaction lib uid r = Inl e
           \<and> post_upload lib d uid fname rows = (Inl (HTTPException 400 (Row_parsing_failed e)), d)"
proof -
  from split_list_first_prop[OF assms(2)]
  obtain pre bad post where rows: "rows = pre @ bad # post"
    and bad: "\<exists>e. build_transaction lib uid bad = Inl e"
    and pre: "\<forall>r\<in>set pre. \<not> (\<exists>e. build_transaction lib uid r = Inl e)"
    by blast
  from bad obtain e where e: "build_transaction lib uid bad = Inl e" by blast
  have "\<forall>r\<in>set pre. \<exists>t. build_transaction lib uid r = Inr t"
  proof
    fix r assume "r \<in> set pre"
    with pre show "\<exists>t. build_transaction lib uid r = Inr t"
      by (cases "build_transaction lib uid r") auto
  qed
  from upload_rows_prefix[OF this SessionLocal_fields(4)[of d] SessionLocal_fields(2)[of d],
      where rest="bad # post" and a=0 and k=0]
  obtain db' a' k' where
    "upload_rows lib uid rows (SessionLocal d) 0 0 = upload_rows lib uid (bad # post) db' a' k'"
    and "engine db' = d"
    by (auto simp: rows SessionLocal_fields)
  then have "post_upload lib d uid fname rows = (Inl (HTTPException 400 (Row_parsing_failed e)), d)"
    using assms(1) e by (simp add: post_upload_def upload_csv_def close_def)
  with e rows show ?thesis by auto
qed

text \<open>
  Claim C8 on a file whose first row parses and whose second row has the amount "abc".
\<close>

theorem bad_row_aborts_upload_witness:
  "post_upload python (rewards [dining_amex 3]) 1 ''march.csv''
      [statement_row ''4.50'' ''Dining'', statement_row ''abc'' ''Dining'']
     = (Inl (HTTPException 400 (Row_parsing_failed
             (ValueError (''could not convert string to float: '' @ quoted ''abc'')))),
        rewards [dining_amex 3])"
proof -
  let ?rows = "[statement_row ''4.50'' ''Dining'', statement_row ''abc'' ''Dining'']"
  have g: "build_transaction python 1 (statement_row ''4.50'' ''Dining'')
      = Inr (purchase ''STARBUCKS'' (9 / 2) ''Dining'')" by code_simp
  have b: "build_transaction python 1 (statement_row ''abc'' ''Dining'')
      = Inl (ValueError (''could not convert string to float: '' @ quoted ''abc''))" by code_simp
  have csv: "suffix ''.csv'' ''march.csv''" by code_simp
  have "\<exists>r\<in>set ?rows. \<exists>e. build_transaction python 1 r = Inl e"
    using b by simp
  from bad_row_aborts_upload[OF csv this, of "rewards [dining_amex 3]"]
  obtain r e where "r \<in> set ?rows" and "build_transaction python 1 r = Inl e"
    and p: "post_upload python (rewards [dining_amex 3]) 1 ''march.csv'' ?rows
       = (Inl (HTTPException 400 (Row_parsing_failed e)), rewards [dining_amex 3])"
    by blast
  then have "e = ValueError (''could not convert string to float: '' @ quoted ''abc'')"
    using g b by auto
  with p show ?thesis by simp
qed

text \<open>
  Claim C10. The new row carries the user of the request, the duplicate query does not
  look at the user: when the store holds a row of another user with the same date,
  description, amount and card, the row of the request is counted as skipped and the
  store is unchanged, in a file of its own and wherever it stands in a longer file.
\<close>

theorem other_users_row_blocks_upload:
  assumes "build_transaction lib uid r = Inr t"
    and "x \<in> set (transactions d)" and "same_key t x" and "user_id x \<noteq> uid"
    and "suffix ''.csv'' fname"
  shows "user_id t = uid
     \<and> post_upload lib d uid fname [r]
         = (Inr \<lparr>status = ''success'', added = 0, skipped = 1, filename = fname\<rparr>, d)
     \<and> (\<forall>db rest a k. engine db = d \<and> \<not> autoflush db \<and> flushed db = [] \<longrightarrow>
           upload_rows lib uid (r # rest) db a k = upload_rows lib uid rest db a (k + 1))"
proof -
  have m: "\<exists>x\<in>set (transactions d). same_key t x" using assms(2,3) by blast
  have "post_upload lib d uid fname [r]
         = (Inr \<lparr>status = ''success'', added = 0, skipped = 1, filename = fname\<rparr>, d)"
    using post_upload_single[OF assms(5,1), of d] m by simp
  moreover have "upload_rows lib uid (r # rest) db a k = upload_rows lib uid rest db a (k + 1)"
    if "engine db = d \<and> \<not> autoflush db \<and> flushed db = []" for db rest a k
    using that m upload_rows_step[OF _ _ assms(1), of db rest a k]
    by (simp del: upload_rows.simps(2))
  ultimately show ?thesis
    using build_transaction_user[OF assms(1)] by blast
qed

text \<open>
  Claim C10 on the Starbucks row, stored for user 1 and uploaded by user 2.
\<close>

theorem other_users_row_blocks_upload_witness:
  "user_id (purchase ''STARBUCKS'' (9 / 2) ''Dining'') \<noteq> 2
   \<and> post_upload python
        ((rewards [dining_amex 3])\<lparr>transactions := [purchase ''STARBUCKS'' (9 / 2) ''Dining'']\<rparr>)
        2 ''mine.csv'' [statement_row ''4.50'' ''Dining'']
     = (Inr \<lparr>status = ''success'', added = 0, skipped = 1, filename = ''mine.csv''\<rparr>,
        (rewards [dining_amex 3])\<lparr>transactions := [purchase ''STARBUCKS'' (9 / 2) ''Dining'']\<rparr>)"
proof -
  let ?x = "purchase ''STARBUCKS'' (9 / 2) ''Dining''"
  let ?d = "(rewards [dining_amex 3])\<lparr>transactions := [?x]\<rparr>"
  have b: "build_transaction python 2 (statement_row ''4.50'' ''Dining'') = Inr (?x\<lparr>user_id := 2\<rparr>)"
    by code_simp
  have i: "?x \<in> set (transactions ?d)" by simp
  have k: "same_key (?x\<lparr>user_id := 2\<rparr>) ?x" by (simp add: same_key_def)
  have u: "user_id ?x \<noteq> 2" by (simp add: purchase_def)
  have csv: "suffix ''.csv'' ''mine.csv''" by code_simp
  from other_users_row_blocks_upload[OF b i k u csv] u show ?thesis by simp
qed

section \<open>The validator\<close>

text \<open>
  Only the empty text has no line. The reader raises nothing but its own error, ends every
  line at the start of a record or inside a quoted field, and so yields a first record
  whenever there is a line.
\<close>

lemma splitlines_from_empty: "splitlines_from cur s = [] \<longleftrightarrow> cur = [] \<and> s = []"
  by (induction cur s rule: splitlines_from.induct) auto

lemma splitlines_empty: "splitlines s = [] \<longleftrightarrow> s = []"
  by (simp add: splitlines_def splitlines_from_empty)

lemma parse_add_char_error: "parse_add_char r c = Inl e \<Longrightarrow> \<exists>m. e = CsvError m"
  by (auto simp: parse_add_char_def split: if_splits)

lemma start_field_error: "start_field r c = Inl e \<Longrightarrow> \<exists>m. e = CsvError m"
  by (auto simp: start_field_def bind_exn_def split: csv_char.splits if_splits sum.splits
      dest: parse_add_char_error)

lemma parse_process_char_error: "parse_process_char r c = Inl e \<Longrightarrow> \<exists>m. e = CsvError m"
  by (auto simp: parse_process_char_def bind_exn_def
      split: parser_state.splits csv_char.splits if_splits sum.splits
      dest: parse_add_char_error start_field_error)

lemma process_line_error: "process_line r l = Inl e \<Longrightarrow> \<exists>m. e = CsvError m"
  by (induction l arbitrary: r)
    (auto simp: bind_exn_def split: sum.splits dest: parse_process_char_error)

lemma end_of_line_state: "state (end_of_line r EOL) = START_RECORD"
  by (simp add: end_of_line_def parse_save_field_def)

lemma parse_process_char_EOL_state:
  "parse_process_char r EOL = Inr r' \<Longrightarrow> state r' = START_RECORD \<or> state r' = IN_QUOTED_FIELD"
  by (auto simp: parse_process_char_def start_field_def end_of_line_state
      split: parser_state.splits)

lemma process_line_state:
  "process_line r l = Inr r' \<Longrightarrow> state r' = START_RECORD \<or> state r' = IN_QUOTED_FIELD"
  by (induction l arbitrary: r)
    (auto simp: bind_exn_def split: sum.splits dest: parse_process_char_EOL_state)

lemma reader_next_from_error: "reader_next_from r ls = Inl e \<Longrightarrow> \<exists>m. e = CsvError m"
  by (induction ls arbitrary: r)
    (auto simp: bind_exn_def split: sum.splits if_splits dest: process_line_error)

lemma reader_next_from_record:
  "state r = IN_QUOTED_FIELD \<or> ls \<noteq> [] \<Longrightarrow> reader_next_from r ls \<noteq> Inr None"
proof (induction ls arbitrary: r)
  case Nil
  then show ?case by simp
next
  case (Cons l ls)
  show ?case
  proof (cases "process_line r l")
    case (Inl e)
    then show ?thesis by (simp add: bind_exn_def)
  next
    case (Inr r')
    from process_line_state[OF Inr] Cons.IH[of r'] Inr show ?thesis
      by (auto simp: bind_exn_def)
  qed
qed

lemma fieldnames_None: "fieldnames ls = Inr None \<longleftrightarrow> ls = []"
  using reader_next_from_record[of "\<lparr>saved_fields = [], field = [], state = START_RECORD\<rparr>" ls]
  by (cases ls) (auto simp: fieldnames_def reader_next_def)

text \<open>
  The validator raises the \<^verbatim>\<open>TypeError\<close> on the empty text and on no other; every other
  exception comes from the reader.
\<close>

lemma validate_csv_TypeError:
  "validate_csv content = Inl (TypeError m)
     \<longleftrightarrow> content = [] \<and> m = quoted ''NoneType'' @ '' object is not iterable''"
proof (cases "fieldnames (splitlines content)")
  case (Inl e)
  then obtain m' where "e = CsvError m'"
    by (auto simp: fieldnames_def reader_next_def dest: reader_next_from_error)
  with Inl fieldnames_None[of "splitlines content"] show ?thesis
    by (auto simp: validate_csv_def bind_exn_def splitlines_empty)
next
  case (Inr names)
  with fieldnames_None[of "splitlines content"] show ?thesis
    by (cases names) (auto simp: validate_csv_def bind_exn_def splitlines_empty)
qed

lemma validate_csv_returns:
  "validate_csv content = Inr b
     \<longleftrightarrow> (\<exists>fs. fieldnames (splitlines content) = Inr (Some fs) \<and> b = (set STANDARD_HEADERS \<subseteq> set fs))"
  by (auto simp: validate_csv_def bind_exn_def split: sum.splits option.splits)


text \<open>
  A first line without a quote character is read as its comma-separated fields, so on
  such a header the validator answers whether the five names are among them, in any
  order and with any other names beside them.
\<close>

lemma splitlines_from_chars:
  "l \<in> set (splitlines_from cur s) \<Longrightarrow> c \<in> set l \<Longrightarrow> c \<in> set cur \<or> \<not> is_linebreak c"
  by (induction cur s arbitrary: l rule: splitlines_from.induct) (auto split: if_splits)

lemma splitlines_no_crlf: "l \<in> set (splitlines s) \<Longrightarrow> c \<in> set l \<Longrightarrow> \<not> is_crlf c"
  using splitlines_from_chars[of l "[]" s c]
  by (auto simp: splitlines_def is_crlf_def is_linebreak_def)

lemma process_line_plain:
  assumes "CHR 0x22 \<notin> set l" and "\<forall>c\<in>set l. \<not> is_crlf c"
    and "length (field r) + length l \<le> 131072"
    and "state r = IN_FIELD \<or> (state r = START_FIELD \<and> field r = [])"
  shows "process_line r l =
     Inr \<lparr>saved_fields = saved_fields r @ split_commas_from (field r) l, field = [],
          state = START_RECORD\<rparr>"
  using assms
proof (induction l arbitrary: r)
  case Nil
  then show ?case
    by (auto simp: parse_process_char_def start_field_def end_of_line_def parse_save_field_def)
next
  case (Cons c cs)
  show ?case
  proof (cases "c = CHR '',''")
    case True
    let ?r = "(parse_save_field r)\<lparr>state := START_FIELD\<rparr>"
    have step: "parse_process_char r (Ch c) = Inr ?r"
      using Cons.prems True
      by (auto simp: parse_process_char_def start_field_def parse_save_field_def is_crlf_def code_point_def)
    have "process_line ?r cs =
       Inr \<lparr>saved_fields = saved_fields ?r @ split_commas_from (field ?r) cs, field = [],
            state = START_RECORD\<rparr>"
      using Cons.prems by (intro Cons.IH) (auto simp: parse_save_field_def)
    with step True show ?thesis
      by (simp add: bind_exn_def parse_save_field_def)
  next
    case False
    let ?r = "r\<lparr>field := field r @ [c], state := IN_FIELD\<rparr>"
    have add: "parse_add_char r c = Inr (r\<lparr>field := field r @ [c]\<rparr>)"
      using Cons.prems(3) by (simp add: parse_add_char_def)
    have step: "parse_process_char r (Ch c) = Inr ?r"
      using Cons.prems False add
      by (auto simp: parse_process_char_def start_field_def bind_exn_def)
    have "process_line ?r cs =
       Inr \<lparr>saved_fields = saved_fields ?r @ split_commas_from (field ?r) cs, field = [],
            state = START_RECORD\<rparr>"
      using Cons.prems by (intro Cons.IH) auto
    with step False show ?thesis
      by (simp add: bind_exn_def)
  qed
qed

lemma fieldnames_plain_line:
  assumes "CHR 0x22 \<notin> set l" and "\<forall>c\<in>set l. \<not> is_crlf c" and "length l \<le> 131072"
  shows "fieldnames (l # ls) = Inr (Some (if l = [] then [] else split_commas l))"
proof (cases l)
  case Nil
  then show ?thesis
    by (simp add: fieldnames_def reader_next_def parse_process_char_def bind_exn_def)
next
  case (Cons c cs)
  let ?r0 = "\<lparr>saved_fields = [], field = [], state = START_RECORD\<rparr>"
  let ?r1 = "\<lparr>saved_fields = [], field = [], state = START_FIELD\<rparr>"
  have "parse_process_char ?r0 (Ch c) = parse_process_char ?r1 (Ch c)"
    using assms(2) Cons by (simp add: parse_process_char_def)
  then have "process_line ?r0 l = process_line ?r1 l"
    by (simp add: Cons)
  also have "\<dots> = Inr \<lparr>saved_fields = saved_fields ?r1 @ split_commas_from (field ?r1) l, field = [],
          state = START_RECORD\<rparr>"
    using assms by (intro process_line_plain) auto
  finally show ?thesis
    using Cons by (simp add: fieldnames_def reader_next_def bind_exn_def split_commas_def)
qed

lemma validate_csv_plain_header:
  assumes "splitlines content = l # ls" and "CHR 0x22 \<notin> set l" and "length l \<le> 131072"
  shows "validate_csv content =
     Inr (set STANDARD_HEADERS \<subseteq> set (if l = [] then [] else split_commas l))"
proof -
  have "\<forall>c\<in>set l. \<not> is_crlf c"
    using splitlines_no_crlf[of l content] assms(1) by simp
  from fieldnames_plain_line[OF assms(2) this assms(3), of ls] assms(1)
  show ?thesis by (simp add: validate_csv_def bind_exn_def)
qed

text \<open>
  The reader raises its error on a field of more than 131072 characters only: while the
  characters read so far and those still to come are no more than that, every line is
  read, and so is the first record.
\<close>

lemma parse_process_char_fits:
  assumes "\<not> is_crlf c" and "state r \<noteq> EAT_CRNL" and "length (field r) < 131072"
  shows "\<exists>r'. parse_process_char r (Ch c) = Inr r' \<and> state r' \<noteq> EAT_CRNL
            \<and> length (field r') \<le> length (field r) + 1"
  using assms
  by (cases "state r")
    (auto simp: parse_process_char_def start_field_def parse_add_char_def parse_save_field_def
      bind_exn_def)

lemma parse_process_char_EOL_fits:
  assumes "state r \<noteq> EAT_CRNL"
  shows "\<exists>r'. parse_process_char r EOL = Inr r' \<and> state r' \<noteq> EAT_CRNL
            \<and> length (field r') \<le> length (field r)"
  using assms
  by (cases "state r")
    (auto simp: parse_process_char_def start_field_def end_of_line_def parse_save_field_def)

lemma process_line_fits:
  assumes "\<forall>c\<in>set l. \<not> is_crlf c" and "state r \<noteq> EAT_CRNL"
    and "length (field r) + length l \<le> 131072"
  shows "\<exists>r'. process_line r l = Inr r' \<and> state r' \<noteq> EAT_CRNL
            \<and> length (field r') \<le> length (field r) + length l"
  using assms
proof (induction l arbitrary: r)
  case Nil
  then show ?case using parse_process_char_EOL_fits[of r] by simp
next
  case (Cons c cs)
  from Cons.prems obtain r1 where step: "parse_process_char r (Ch c) = Inr r1"
    and st: "state r1 \<noteq> EAT_CRNL" and len: "length (field r1) \<le> length (field r) + 1"
    using parse_process_char_fits[of c r] by auto
  from Cons.prems len have "length (field r1) + length cs \<le> 131072" by simp
  with Cons.IH[of r1] Cons.prems(1) st obtain r' where "process_line r1 cs = Inr r'"
    and "state r' \<noteq> EAT_CRNL" and "length (field r') \<le> length (field r1) + length cs"
    by auto
  with step len show ?case by (auto simp: bind_exn_def)
qed

lemma reader_next_from_fits:
  assumes "\<forall>l\<in>set ls. \<forall>c\<in>set l. \<not> is_crlf c" and "state r \<noteq> EAT_CRNL"
    and "length (field r) + sum_list (map length ls) \<le> 131072"
  shows "\<exists>res. reader_next_from r ls = Inr res"
  using assms
proof (induction ls arbitrary: r)
  case Nil
  then show ?case by simp
next
  case (Cons l ls)
  from Cons.prems obtain r' where line: "process_line r l = Inr r'"
    and st: "state r' \<noteq> EAT_CRNL" and len: "length (field r') \<le> length (field r) + length l"
    using process_line_fits[of l r] by auto
  from Cons.prems(3) len have "length (field r') + sum_list (map length ls) \<le> 131072" by simp
  with Cons.IH[of r'] Cons.prems(1) st obtain res where "reader_next_from r' ls = Inr res"
    by auto
  with line show ?case by (auto simp: bind_exn_def)
qed

lemma splitlines_from_length:
  "sum_list (map length (splitlines_from cur s)) \<le> length cur + length s"
  by (induction cur s rule: splitlines_from.induct) auto

lemma fieldnames_fits:
  assumes "length content \<le> 131072"
  shows "\<exists>res. fieldnames (splitlines content) = Inr res"
proof -
  have "sum_list (map length (splitlines content)) \<le> 131072"
    using splitlines_from_length[of "[]" content] assms by (simp add: splitlines_def)
  then show ?thesis
    using reader_next_from_fits[of "splitlines content"
        "\<lparr>saved_fields = [], field = [], state = START_RECORD\<rparr>"]
      splitlines_no_crlf[of _ content]
    by (auto simp: fieldnames_def reader_next_def)
qed

text \<open>
  A first header name of 131073 characters: the text is one line, and the reader raises
  its error on the last character of the name.
\<close>

lemma splitlines_from_plain:
  assumes "\<forall>c\<in>set s. \<not> is_linebreak c" and "cur @ s \<noteq> []"
  shows "splitlines_from cur s = [cur @ s]"
  using assms by (induction cur s rule: splitlines_from.induct) (auto simp: is_linebreak_def)

lemma process_line_overflow:
  assumes "state r = IN_FIELD \<or> state r = START_FIELD \<or> state r = START_RECORD"
    and "c \<noteq> CHR '',''" and "c \<noteq> CHR 0x22" and "\<not> is_crlf c"
    and "length (field r) \<le> 131072" and "131072 < length (field r) + n"
  shows "process_line r (replicate n c @ rest)
     = Inl (CsvError ''field larger than field limit (131072)'')"
  using assms(1,5,6)
proof (induction n arbitrary: r)
  case 0
  then show ?case by simp
next
  case (Suc n)
  show ?case
  proof (cases "length (field r) = 131072")
    case True
    then have "parse_process_char r (Ch c) = Inl (CsvError ''field larger than field limit (131072)'')"
      using Suc.prems(1) assms(2-4)
      by (auto simp: parse_process_char_def start_field_def parse_add_char_def bind_exn_def)
    then show ?thesis by (simp add: bind_exn_def)
  next
    case False
    let ?r = "r\<lparr>field := field r @ [c], state := IN_FIELD\<rparr>"
    from False Suc.prems(2) have "length (field r) < 131072" by simp
    then have "parse_process_char r (Ch c) = Inr ?r"
      using Suc.prems(1) assms(2-4)
      by (auto simp: parse_process_char_def start_field_def parse_add_char_def bind_exn_def)
    moreover have "process_line ?r (replicate n c @ rest)
        = Inl (CsvError ''field larger than field limit (131072)'')"
      using False Suc.prems by (intro Suc.IH) auto
    ultimately show ?thesis by (simp add: bind_exn_def)
  qed
qed

lemma validate_csv_long_field:
  "validate_csv (replicate 131073 (CHR ''a'') @ '',transaction_date'')
     = Inl (CsvError ''field larger than field limit (131072)'')"
proof -
  let ?s = "replicate 131073 (CHR ''a'') @ '',transaction_date''"
  let ?r0 = "\<lparr>saved_fields = [], field = [], state = START_RECORD\<rparr>"
  have "\<forall>c\<in>set ?s. \<not> is_linebreak c"
    by (auto simp: is_linebreak_def code_point_def)
  then have lines: "splitlines ?s = [?s]"
    using splitlines_from_plain[of ?s "[]"] by (simp add: splitlines_def)
  have "process_line ?r0 ?s = Inl (CsvError ''field larger than field limit (131072)'')"
    by (rule process_line_overflow) (simp_all add: is_crlf_def code_point_def)
  then show ?thesis
    by (simp add: validate_csv_def fieldnames_def reader_next_def lines bind_exn_def)
qed

text \<open>
  The caller reads the first line of the answer before it calls the validator: on the
  empty answer \<^verbatim>\<open>normalized.splitlines()[0]\<close> raises, and the validator is not called.
\<close>

lemma empty_answer_raises_IndexError:
  assumes "read_text w p = Inr raw"
    and "chat ev (length (requests w)) (prompt raw card_name) = Inr []"
  shows "fst (try_body ev w p card_name lock_file) = Some (IndexError ''list index out of range'')"
  using assms by (simp add: try_body_def normalize_csv_via_ollama_def splitlines_def)

text \<open>
  Claim C9 as stated: the validator is said to return false for every input that lacks
  one of the five names. The empty text lacks all five, and the validator raises on it:
  there is no first record, \<^verbatim>\<open>fieldnames\<close> is \<^verbatim>\<open>None\<close>, and \<^verbatim>\<open>set(None)\<close> is a
  \<^verbatim>\<open>TypeError\<close>. A header whose first name has 131073 characters lacks four of the names,
  and the validator raises the error of the reader on it.
\<close>

theorem validate_csv_raises:
  "validate_csv [] = Inl (TypeError (quoted ''NoneType'' @ '' object is not iterable''))
   \<and> validate_csv (replicate 131073 (CHR ''a'') @ '',transaction_date'')
     = Inl (CsvError ''field larger than field limit (131072)'')"
proof -
  have "validate_csv [] = Inl (TypeError (quoted ''NoneType'' @ '' object is not iterable''))"
    by code_simp
  with validate_csv_long_field show ?thesis by simp
qed

text \<open>
  Claim C9, amended. On a text that has a first line, as every text the caller passes
  has, the validator returns whether each of the five names, as it is spelled, is among
  the header fields the reader parses, or the reader raises its error, which it does on
  texts of more than 131072 characters only. When the first line has no quote character
  and at most 131072 characters, the header fields are the line cut at its commas: the
  validator returns true exactly when the five names are among them, in any order and
  with any other names beside them, and false when one is missing.
\<close>

theorem validate_csv_first_line:
  assumes "splitlines content = l # ls"
  shows "((\<exists>fs. fieldnames (splitlines content) = Inr (Some fs)
             \<and> validate_csv content
                 = Inr (''transaction_date'' \<in> set fs \<and> ''description'' \<in> set fs
                        \<and> ''amount'' \<in> set fs \<and> ''category'' \<in> set fs \<and> ''card'' \<in> set fs))
          \<or> (131072 < length content \<and> (\<exists>m. validate_csv content = Inl (CsvError m))))
     \<and> (CHR 0x22 \<notin> set l \<and> length l \<le> 131072 \<longrightarrow>
           validate_csv content
             = Inr (''transaction_date'' \<in> set (split_commas l) \<and> ''description'' \<in> set (split_commas l)
                    \<and> ''amount'' \<in> set (split_commas l) \<and> ''category'' \<in> set (split_commas l)
                    \<and> ''card'' \<in> set (split_commas l)))"
proof -
  have general: "(\<exists>fs. fieldnames (splitlines content) = Inr (Some fs)
             \<and> validate_csv content
                 = Inr (''transaction_date'' \<in> set fs \<and> ''description'' \<in> set fs
                        \<and> ''amount'' \<in> set fs \<and> ''category'' \<in> set fs \<and> ''card'' \<in> set fs))
          \<or> (131072 < length content \<and> (\<exists>m. validate_csv content = Inl (CsvError m)))"
  proof (cases "fieldnames (splitlines content)")
    case (Inl e)
    then obtain m where "e = CsvError m"
      by (auto simp: fieldnames_def reader_next_def dest: reader_next_from_error)
    with Inl have "validate_csv content = Inl (CsvError m)"
      by (simp add: validate_csv_def bind_exn_def)
    moreover have "131072 < length content"
      using Inl fieldnames_fits[of content] by (cases "length content \<le> 131072") auto
    ultimately show ?thesis by blast
  next
    case (Inr names)
    with fieldnames_None[of "splitlines content"] assms obtain fs where "names = Some fs"
      by (cases names) auto
    with Inr show ?thesis
      by (simp add: validate_csv_def bind_exn_def STANDARD_HEADERS_def)
  qed
  have plain: "validate_csv content
             = Inr (''transaction_date'' \<in> set (split_commas l) \<and> ''description'' \<in> set (split_commas l)
                    \<and> ''amount'' \<in> set (split_commas l) \<and> ''category'' \<in> set (split_commas l)
                    \<and> ''card'' \<in> set (split_commas l))"
    if "CHR 0x22 \<notin> set l" and "length l \<le> 131072"
    using validate_csv_plain_header[OF assms that]
    by (cases "l = []") (simp_all add: STANDARD_HEADERS_def split_commas_def)
  from general plain show ?thesis by blast
qed

text \<open>
  Claim C9, amended, on three answers: a header with the five names in another order
  and a sixth name, with a row after it; a header that spells the first name with
  capitals; a header without the card.
\<close>

theorem validate_csv_first_line_witness:
  "validate_csv ''card,amount,memo,description,category,transaction_date\<newline>Amex,4.50,x,STARBUCKS,Dining,2024-03-01''
     = Inr True
   \<and> validate_csv ''Transaction_Date,description,amount,category,card'' = Inr False
   \<and> validate_csv ''transaction_date,description,amount,category'' = Inr False"
proof -
  let ?l1 = "''card,amount,memo,description,category,transaction_date''"
  let ?c1 = "?l1 @ ''\<newline>Amex,4.50,x,STARBUCKS,Dining,2024-03-01''"
  let ?c2 = "''Transaction_Date,description,amount,category,card''"
  let ?c3 = "''transaction_date,description,amount,category''"
  have l1: "splitlines ?c1 = [?l1, ''Amex,4.50,x,STARBUCKS,Dining,2024-03-01'']" by code_simp
  have l2: "splitlines ?c2 = [?c2]" by code_simp
  have l3: "splitlines ?c3 = [?c3]" by code_simp
  have f1: "split_commas ?l1
      = [''card'', ''amount'', ''memo'', ''description'', ''category'', ''transaction_date'']"
    by code_simp
  have f2: "split_commas ?c2
      = [''Transaction_Date'', ''description'', ''amount'', ''category'', ''card'']"
    by code_simp
  have f3: "split_commas ?c3 = [''transaction_date'', ''description'', ''amount'', ''category'']"
    by code_simp
  have "validate_csv ?c1 = Inr True"
    using validate_csv_first_line[OF l1, THEN conjunct2] by (simp add: f1)
  moreover have "validate_csv ?c2 = Inr False"
    using validate_csv_first_line[OF l2, THEN conjunct2] by (simp add: f2)
  moreover have "validate_csv ?c3 = Inr False"
    using validate_csv_first_line[OF l3, THEN conjunct2] by (simp add: f3)
  ultimately show ?thesis by simp
qed

section \<open>The file lifecycle\<close>

text \<open>Replacing the suffix of a named path puts the new suffix after its stem.\<close>

lemma rfind_dot_less: "rfind_dot s = Some i \<Longrightarrow> i < length s"
  by (cases s) (auto simp: rfind_dot_def split: if_splits)

lemma with_suffix_stem:
  assumes "name p \<noteq> []"
  shows "with_suffix p sfx = Inr \<lparr>parent = parent p, name = stem p @ sfx\<rparr>"
proof (cases "rfind_dot (name p)")
  case None
  with assms show ?thesis by (simp add: with_suffix_def path_suffix_def stem_def)
next
  case (Some i)
  then have "i < length (name p)" by (rule rfind_dot_less)
  with Some assms show ?thesis
    by (auto simp: with_suffix_def path_suffix_def stem_def)
qed

text \<open>
  Claim C6. When the completion marker of a file exists (the sibling with the same stem
  and the suffix \<^verbatim>\<open>.processed\<close>), \<^verbatim>\<open>process_file\<close> returns the state it was given: no
  request is sent, no file is moved or written, nothing is logged, the clock is not read;
  and the poll goes on with the next file in that same state.
\<close>

theorem marker_means_no_effect:
  assumes "name p \<noteq> []"
    and "files w \<lparr>parent = parent p, name = stem p @ ''.processed''\<rparr> \<noteq> None"
  shows "process_file ev w p = Inr w \<and> poll_cycle ev w (p # ps) = poll_cycle ev w ps"
proof -
  have "process_file ev w p = Inr w"
    using assms by (simp add: process_file_def with_suffix_stem)
  then show ?thesis by (simp add: bind_exn_def)
qed

text \<open>
  Claim C6 on an inbox that holds \<^verbatim>\<open>amex_march.csv\<close> and its marker.
\<close>

theorem marker_means_no_effect_witness:
  "process_file (answering (Inr ''transaction_date,description,amount,category,card''))
      (holding ((\<lambda>q. None)(inbox ''amex_march.csv'' \<mapsto> Text ''Date,Details,Debit'',
                              inbox ''amex_march.processed'' \<mapsto> Text [])))
      (inbox ''amex_march.csv'')
     = Inr (holding ((\<lambda>q. None)(inbox ''amex_march.csv'' \<mapsto> Text ''Date,Details,Debit'',
                              inbox ''amex_march.processed'' \<mapsto> Text [])))"
proof -
  let ?w = "holding ((\<lambda>q. None)(inbox ''amex_march.csv'' \<mapsto> Text ''Date,Details,Debit'',
                              inbox ''amex_march.processed'' \<mapsto> Text []))"
  have n: "name (inbox ''amex_march.csv'') \<noteq> []" by (simp add: inbox_def)
  have st: "stem (inbox ''amex_march.csv'') = ''amex_march''" by code_simp
  have m: "files ?w \<lparr>parent = parent (inbox ''amex_march.csv''),
                     name = stem (inbox ''amex_march.csv'') @ ''.processed''\<rparr> \<noteq> None"
    unfolding st by (simp add: holding_def inbox_def)
  from marker_means_no_effect[OF n m] show ?thesis by simp
qed

text \<open>
  The failing steps are exactly the ways the \<^verbatim>\<open>try\<close> body raises on a file that exists,
  and none of them has changed the files, the log or the clock when it raises.
\<close>

lemma try_body_fails:
  assumes "step_fails ev w p e"
  shows "\<exists>w1. try_body ev w p (card_name_of p) lock = (Some e, w1)
      \<and> files w1 = files w \<and> log w1 = log w \<and> clock w1 = clock w \<and> files w p \<noteq> None"
  using assms
  by (induction rule: step_fails.induct)
    (auto simp: try_body_def read_text_def normalize_csv_via_ollama_def)

lemma try_body_fails_only:
  assumes "try_body ev w p (card_name_of p) lock = (Some e, w1)" and "files w p \<noteq> None"
  shows "step_fails ev w p e"
proof -
  from assms(2) obtain f where f: "files w p = Some f" by auto
  show ?thesis
  proof (cases f)
    case (Unreadable x)
    with f assms(1) show ?thesis
      by (auto simp: try_body_def read_text_def intro: step_fails.read_fails)
  next
    case (Text raw)
    show ?thesis
    proof (cases "chat ev (length (requests w)) (prompt raw (card_name_of p))")
      case (Inl x)
      with f Text assms(1) show ?thesis
        by (auto simp: try_body_def read_text_def normalize_csv_via_ollama_def
            intro: step_fails.normalization_fails)
    next
      case (Inr normalized)
      show ?thesis
      proof (cases "splitlines normalized")
        case Nil
        with f Text Inr assms(1) show ?thesis
          by (auto simp: try_body_def read_text_def normalize_csv_via_ollama_def
              intro: step_fails.no_first_line)
      next
        case (Cons first_line rest)
        show ?thesis
        proof (cases "sublist ''transaction_date'' (lower first_line)")
          case False
          with f Text Inr Cons assms(1) show ?thesis
            by (auto simp: try_body_def read_text_def normalize_csv_via_ollama_def
                intro: step_fails.header_gate_fails)
        next
          case True
          show ?thesis
          proof (cases "validate_csv normalized")
            case (Inl x)
            with f Text Inr Cons True assms(1) show ?thesis
              by (auto simp: try_body_def read_text_def normalize_csv_via_ollama_def
                  intro: step_fails.validation_raises)
          next
            case ok: (Inr b)
            show ?thesis
            proof (cases b)
              case False
              with ok f Text Inr Cons True assms(1) show ?thesis
                by (auto simp: try_body_def read_text_def normalize_csv_via_ollama_def
                    intro: step_fails.validation_fails)
            next
              case b: True
              have "files (write_text w' q s) p \<noteq> None" if "files w' p \<noteq> None" for w' q s
                using that by (simp add: write_text_def)
              with b ok f Text Inr Cons True assms(1) show ?thesis
                by (auto simp: try_body_def read_text_def normalize_csv_via_ollama_def Let_def
                    shutil_move_def write_text_def split: option.splits if_splits)
            qed
          qed
        qed
      qed
    qed
  qed
qed

text \<open>
  Claim C7. For an inbox file without a marker, when reading, normalizing, the header gate
  or the validation fails with an exception \<open>e\<close>, \<^verbatim>\<open>process_file\<close> returns normally. The
  file has left the inbox and stands, with its content, under its own name in the failed
  archive; no other file is touched and there is still no marker; the log has grown by
  the one line with the status \<^verbatim>\<open>failed\<close> and the text of \<open>e\<close>; and the poll goes on with
  the next file.
\<close>

theorem failure_is_archived_and_logged:
  assumes "step_fails ev w p e" and "parent p = INCOMING_DIR" and "name p \<noteq> []"
    and "files w \<lparr>parent = parent p, name = stem p @ ''.processed''\<rparr> = None"
  shows "\<exists>w'. process_file ev w p = Inr w'
     \<and> files w p \<noteq> None
     \<and> files w' = ((files w)(p := None))(\<lparr>parent = FAILED_DIR, name = name p\<rparr> := files w p)
     \<and> files w' p = None
     \<and> files w' \<lparr>parent = parent p, name = stem p @ ''.processed''\<rparr> = None
     \<and> log w' = log w @ [str_now ev (clock w) @ '','' @ name p @ '','' @ ''failed'' @ '','' @ str_of e @ ''\<newline>'']
     \<and> poll_cycle ev w (p # ps) = poll_cycle ev w' ps"
proof -
  let ?lock = "\<lparr>parent = parent p, name = stem p @ ''.processed''\<rparr>"
  let ?failed = "\<lparr>parent = FAILED_DIR, name = name p\<rparr>"
  from try_body_fails[OF assms(1), of ?lock]
  obtain w1 where t: "try_body ev w p (card_name_of p) ?lock = (Some e, w1)"
    and fs: "files w1 = files w" and lg: "log w1 = log w" and ck: "clock w1 = clock w"
    and ex: "files w p \<noteq> None" by blast
  from ex obtain f where f: "files w p = Some f" by auto
  let ?w2 = "w1\<lparr>files := ((files w1)(p := None))(?failed \<mapsto> f)\<rparr>"
  let ?w' = "log_event ev ?w2 (name p) ''failed'' (str_of e)"
  have dirs: "INCOMING_DIR \<noteq> FAILED_DIR" by (simp add: INCOMING_DIR_def FAILED_DIR_def)
  have pf: "p \<noteq> ?failed" using assms(2) dirs by (cases p) auto
  have lf: "?lock \<noteq> ?failed" using assms(2) dirs by auto
  have pr: "process_file ev w p = Inr ?w'"
    using assms(3,4) t f fs
    by (simp add: process_file_def with_suffix_stem shutil_move_def bind_exn_def)
  have "files ?w' = ((files w)(p := None))(?failed := files w p)"
    by (simp add: log_event_def fs f)
  moreover have "files ?w' p = None" using pf by (simp add: log_event_def)
  moreover have "files ?w' ?lock = None"
    using lf assms(4) f by (auto simp: log_event_def fs)
  moreover have "log ?w' = log w @ [str_now ev (clock w) @ '','' @ name p @ '','' @ ''failed'' @ '','' @ str_of e @ ''\<newline>'']"
    by (simp add: log_event_def lg ck)
  moreover have "poll_cycle ev w (p # ps) = poll_cycle ev ?w' ps"
    by (simp add: pr bind_exn_def)
  ultimately show ?thesis using pr ex by blast
qed

text \<open>
  The hypothesis that the file exists is needed: when it has vanished, reading fails, the
  move in the handler fails as well, and that second exception leaves \<^verbatim>\<open>process_file\<close>.
\<close>

lemma process_file_missing_file:
  assumes "name p \<noteq> []" and "files w p = None"
    and "files w \<lparr>parent = parent p, name = stem p @ ''.processed''\<rparr> = None"
  shows "process_file ev w p = Inl (FileNotFoundError ''No such file or directory'')"
  using assms
  by (simp add: process_file_def with_suffix_stem try_body_def read_text_def shutil_move_def
      bind_exn_def)

text \<open>
  Claim C7 on an answer of the model that lacks the category and the card columns.
\<close>

theorem failure_is_archived_and_logged_witness:
  "\<exists>w'. process_file
           (answering (Inr ''transaction_date,description,amount\<newline>2024-03-01,STARBUCKS,4.50''))
           (holding ((\<lambda>q. None)(inbox ''amex_march.csv'' \<mapsto> Text ''Date,Details,Debit'')))
           (inbox ''amex_march.csv'') = Inr w'
     \<and> files w' (inbox ''amex_march.csv'') = None
     \<and> files w' \<lparr>parent = FAILED_DIR, name = ''amex_march.csv''\<rparr> = Some (Text ''Date,Details,Debit'')
     \<and> files w' (inbox ''amex_march.processed'') = None
     \<and> log w' = [''2024-03-05 08:00:00,amex_march.csv,failed,Validation failed: CSV headers missing or incorrect\<newline>'']"
proof -
  let ?ev = "answering (Inr ''transaction_date,description,amount\<newline>2024-03-01,STARBUCKS,4.50'')"
  let ?w = "holding ((\<lambda>q. None)(inbox ''amex_march.csv'' \<mapsto> Text ''Date,Details,Debit''))"
  let ?p = "inbox ''amex_march.csv''"
  have f: "files ?w ?p = Some (Text ''Date,Details,Debit'')" by (simp add: holding_def)
  have c: "chat ?ev (length (requests ?w)) (prompt ''Date,Details,Debit'' (card_name_of ?p))
      = Inr ''transaction_date,description,amount\<newline>2024-03-01,STARBUCKS,4.50''"
    by (simp add: answering_def)
  have l: "splitlines ''transaction_date,description,amount\<newline>2024-03-01,STARBUCKS,4.50''
      = ''transaction_date,description,amount'' # [''2024-03-01,STARBUCKS,4.50'']"
    by code_simp
  have g: "sublist ''transaction_date'' (lower ''transaction_date,description,amount'')"
    by code_simp
  have v: "validate_csv ''transaction_date,description,amount\<newline>2024-03-01,STARBUCKS,4.50''
      = Inr False"
    by code_simp
  have sf: "step_fails ?ev ?w ?p (ValueError ''Validation failed: CSV headers missing or incorrect'')"
    by (rule step_fails.validation_fails[OF f c l g v])
  have d: "parent ?p = INCOMING_DIR" and n: "name ?p \<noteq> []" by (simp_all add: inbox_def)
  have st: "stem ?p = ''amex_march''" by code_simp
  have m: "files ?w \<lparr>parent = parent ?p, name = stem ?p @ ''.processed''\<rparr> = None"
    unfolding st by (simp add: holding_def inbox_def)
  from failure_is_archived_and_logged[OF sf d n m, of "[]"]
  obtain w' where "process_file ?ev ?w ?p = Inr w'"
    and "files w' = ((files ?w)(?p := None))(\<lparr>parent = FAILED_DIR, name = name ?p\<rparr> := files ?w ?p)"
    and "files w' ?p = None"
    and "files w' \<lparr>parent = parent ?p, name = stem ?p @ ''.processed''\<rparr> = None"
    and "log w' = log ?w @ [str_now ?ev (clock ?w) @ '','' @ name ?p @ '','' @ ''failed'' @ '',''
            @ str_of (ValueError ''Validation failed: CSV headers missing or incorrect'') @ ''\<newline>'']"
    by blast
  then show ?thesis
    unfolding st by (intro exI[of _ w']) (simp add: holding_def inbox_def answering_def)
qed

end
